theory Spec2Isabelle
  imports Complex_Main "HOL-Library.Multiset"
begin

section \<open>Ensemble evaluation on CLINC intent detection\<close>

text \<open>
  A shallow embedding of \<^verbatim>\<open>baselines/clinc_intent/ensemble.py\<close>: the two ensemble
  reductions \<^verbatim>\<open>ensemble_negative_log_likelihood\<close> and \<^verbatim>\<open>gibbs_cross_entropy\<close>, and
  the script \<^verbatim>\<open>main\<close> with its logit cache, its inference loop and its evaluation loop.

  Conventions of the embedding.
  \<^item> The entries of a tensor are real numbers: the float32 arithmetic of the library is
    idealised, so every statement below is about exact values, before rounding.
  \<^item> A tensor of shape \<open>[M, B, C]\<close> (members, examples, classes) is a list of \<open>M\<close>
    members, each a list of \<open>B\<close> rows of \<open>C\<close> reals; a label vector of shape \<open>[B]\<close>
    is a list of \<open>B\<close> integers. Further batch axes of the docstrings' \<open>[...]\<close> are
    taken flattened into the one axis \<open>B\<close>.
  \<^item> Every exception of the source is a value \<open>Inl e\<close>. Where the library yields
    \<open>NaN\<close> or an infinity instead of raising (a label outside the classes on an
    accelerator, an empty ensemble) the model has no real number to return and returns
    \<open>Inl\<close> as well.
\<close>

subsection \<open>Errors\<close>

datatype error =
    ValueError string
  | InvalidArgumentError
  | ZeroDivisionError
  | StopIteration
  | NotFoundError string

text \<open>The results of a list of fallible computations: the first error, or all values.\<close>

fun collect :: "(error + 'a) list \<Rightarrow> error + 'a list" where
  "collect [] = Inr []"
| "collect (r # rs) =
     (case r of
        Inl e \<Rightarrow> Inl e
      | Inr v \<Rightarrow> (case collect rs of Inl e \<Rightarrow> Inl e | Inr vs \<Rightarrow> Inr (v # vs)))"

subsection \<open>The tensor operations the script calls\<close>

text \<open>
  The library operations, by their documented meaning on real numbers.
  \<^verbatim>\<open>tf.convert_to_tensor\<close> of a nested list raises \<^verbatim>\<open>ValueError\<close> unless the list is
  rectangular.
\<close>

definition rectangular :: "'a list list \<Rightarrow> bool" where
  "rectangular xss =
     (case xss of [] \<Rightarrow> True | xs # _ \<Rightarrow> list_all (\<lambda>ys. length ys = length xs) xss)"

definition convert_to_tensor :: "real list list list \<Rightarrow> error + real list list list" where
  "convert_to_tensor logits =
     (if rectangular logits \<and> rectangular (concat logits) then Inr logits
      else Inl (ValueError ''Can't convert non-rectangular Python sequence to Tensor.''))"

text \<open>\<^verbatim>\<open>tf.nn.softmax\<close> over the last axis: \<open>exp x\<^sub>c / \<Sum>\<^sub>j exp x\<^sub>j\<close>.\<close>

definition softmax :: "real list \<Rightarrow> real list" where
  "softmax xs = map (\<lambda>x. exp x / sum_list (map exp xs)) xs"

text \<open>
  \<^verbatim>\<open>tf.nn.sparse_softmax_cross_entropy_with_logits(labels, logits)\<close>: for each row the
  negated logarithm of the softmax probability of the row's label. A label outside
  \<open>[0, C)\<close> raises on a CPU and gives \<open>NaN\<close> on an accelerator. The operation
  requires labels of the shape of the logits without their last axis. It is written
  once per rank: one row, a batch of rows \<open>[B, C]\<close>, and members of batches
  \<open>[M, B, C]\<close>.
\<close>

definition sparse_softmax_cross_entropy_with_logits1 :: "int \<Rightarrow> real list \<Rightarrow> error + real" where
  "sparse_softmax_cross_entropy_with_logits1 label row =
     (if 0 \<le> label \<and> label < int (length row)
      then Inr (- ln (softmax row ! nat label))
      else Inl InvalidArgumentError)"

definition sparse_softmax_cross_entropy_with_logits2 ::
  "int list \<Rightarrow> real list list \<Rightarrow> error + real list" where
  "sparse_softmax_cross_entropy_with_logits2 labels rows =
     (if length labels = length rows
      then collect (map2 sparse_softmax_cross_entropy_with_logits1 labels rows)
      else Inl (ValueError ''Shape mismatch: labels and logits''))"

definition sparse_softmax_cross_entropy_with_logits ::
  "int list list \<Rightarrow> real list list list \<Rightarrow> error + real list list" where
  "sparse_softmax_cross_entropy_with_logits labels logits =
     (if length labels = length logits
      then collect (map2 sparse_softmax_cross_entropy_with_logits2 labels logits)
      else Inl (ValueError ''Shape mismatch: labels and logits''))"

text \<open>
  \<^verbatim>\<open>tf.broadcast_to(labels[tf.newaxis, ...], tf.shape(logits)[:-1])\<close>: the label
  vector, of shape \<open>[L]\<close>, is given a leading axis and broadcast to \<open>[M, B]\<close>; this
  succeeds when \<open>L = B\<close>, and also when \<open>L = 1\<close> (the one label is then repeated).
\<close>

definition broadcast_to :: "int list \<Rightarrow> nat \<Rightarrow> nat \<Rightarrow> error + int list list" where
  "broadcast_to labels M B =
     (if length labels = B then Inr (replicate M labels)
      else if length labels = 1 then Inr (replicate M (replicate B (hd labels)))
      else Inl InvalidArgumentError)"

text \<open>
  A reduction over axis 0 of a tensor with at least one member: entry \<open>i\<close> of the
  result reduces the \<open>i\<close>-th entries of all members.
\<close>

definition reduce_axis0 :: "('a list \<Rightarrow> 'b) \<Rightarrow> 'a list list \<Rightarrow> 'b list" where
  "reduce_axis0 f xss = map (\<lambda>i. f (map (\<lambda>xs. xs ! i) xss)) [0..<length (hd xss)]"

text \<open>
  \<^verbatim>\<open>tf.reduce_logsumexp\<close>, as the library computes it: the maximum is subtracted before
  exponentiating and added back after the logarithm. \<^verbatim>\<open>tf.reduce_mean\<close> is the sum
  divided by the number of entries. Both are only called on a non-empty list below.
\<close>

definition reduce_logsumexp :: "real list \<Rightarrow> real" where
  "reduce_logsumexp xs =
     (let my_max = Max (set xs)
      in ln (sum_list (map (\<lambda>x. exp (x - my_max)) xs)) + my_max)"

definition reduce_mean :: "real list \<Rightarrow> real" where
  "reduce_mean xs = sum_list xs / real (length xs)"

subsection \<open>The two ensemble reductions\<close>

text \<open>
  \<^verbatim>\<open>ensemble_negative_log_likelihood(labels, logits)\<close>. With no member
  (\<open>ensemble_size = 0\<close>) the source computes \<open>log 0\<close>; there is no real result.
\<close>

definition ensemble_negative_log_likelihood ::
  "int list \<Rightarrow> real list list list \<Rightarrow> error + real list" where
  "ensemble_negative_log_likelihood labels logits =
     (case convert_to_tensor logits of
        Inl e \<Rightarrow> Inl e
      | Inr logits \<Rightarrow>
          if logits = [] then Inl InvalidArgumentError
          else
            let ensemble_size = real (length logits) in
            (case broadcast_to labels (length logits) (length (hd logits)) of
               Inl e \<Rightarrow> Inl e
             | Inr labels' \<Rightarrow>
                 (case sparse_softmax_cross_entropy_with_logits labels' logits of
                    Inl e \<Rightarrow> Inl e
                  | Inr nll \<Rightarrow>
                      Inr (map (\<lambda>x. - x + ln ensemble_size)
                             (reduce_axis0 reduce_logsumexp (map (map uminus) nll))))))"

text \<open>\<^verbatim>\<open>gibbs_cross_entropy(labels, logits)\<close>; the mean over no member is \<open>NaN\<close>.\<close>

definition gibbs_cross_entropy :: "int list \<Rightarrow> real list list list \<Rightarrow> error + real list" where
  "gibbs_cross_entropy labels logits =
     (case convert_to_tensor logits of
        Inl e \<Rightarrow> Inl e
      | Inr logits \<Rightarrow>
          if logits = [] then Inl InvalidArgumentError
          else
            (case broadcast_to labels (length logits) (length (hd logits)) of
               Inl e \<Rightarrow> Inl e
             | Inr labels' \<Rightarrow>
                 (case sparse_softmax_cross_entropy_with_logits labels' logits of
                    Inl e \<Rightarrow> Inl e
                  | Inr nll \<Rightarrow> Inr (reduce_axis0 reduce_mean nll))))"

subsection \<open>The ensemble's predicted probabilities\<close>

text \<open>
  Lines 242 and 243 of \<^verbatim>\<open>main\<close>: \<^verbatim>\<open>per_probs = tf.nn.softmax(logits)\<close> is the softmax of
  every row of every member, and \<^verbatim>\<open>probs = tf.reduce_mean(per_probs, axis=0)\<close> is its
  mean over the members, a tensor of shape \<open>[B, C]\<close>.
\<close>

definition per_probs :: "real list list list \<Rightarrow> real list list list" where
  "per_probs logits = map (map softmax) logits"

definition probs :: "real list list list \<Rightarrow> real list list" where
  "probs logits = reduce_axis0 (reduce_axis0 reduce_mean) (per_probs logits)"

subsection \<open>The script's world: flags, collaborators, files and a trace\<close>

text \<open>
  The flags \<^verbatim>\<open>main\<close> reads, most of them inherited from the training binary.
\<close>

record flags =
  use_gpu :: bool
  num_cores :: int
  per_core_batch_size :: int
  model_family :: string
  output_dir :: string
  checkpoint_dir :: string
  seed :: int

text \<open>
  The external collaborators, taken as parameters. An example is a pair of features and
  label (what \<^verbatim>\<open>deterministic.create_feature_and_label\<close> splits a batch into);
  \<open>index_files\<close> is what \<^verbatim>\<open>tf.io.gfile.glob\<close> finds under the checkpoint directory;
  \<open>net ckpt\<close> is the model with the weights of checkpoint \<open>ckpt\<close> restored, in
  inference mode, mapping the features of one example to its row of logits.
\<close>

record 'x env =
  ind_examples :: "('x \<times> int) list"
  ood_examples :: "('x \<times> int) list"
  index_files :: "string list"
  net :: "string \<Rightarrow> 'x \<Rightarrow> real list"

text \<open>
  What the script does to the outside is recorded as a trace of events, oldest first:
  directory and dataset construction, checkpoint restoration, every forward pass of the
  model (member index, dataset name, step), every cache file written or read, every
  \<^verbatim>\<open>update_state\<close> call on a metric (by the metric's key), and the progress messages with
  the numbers they format. The accumulators themselves belong to the metrics libraries.
  A mean metric is updated with a scalar, which is a real number or \<open>NaN\<close> (\<open>None\<close>).
\<close>

datatype event =
    SetSeed int
  | MakeDirs string
  | BuildDatasetBuilder string
  | BuildDataset string
  | BuildModel string
  | Restore string
  | Forward nat string nat
  | WriteFile string
  | LogPrediction real nat nat nat nat
  | ReadFile string
  | UpdateMean string "real option"
  | UpdateLabelsProbs string "int list" "real list list"
  | LogEvaluation real nat nat
  | LogMetrics

record world =
  files :: "string \<rightharpoonup> real list list"
  trace :: "event list"

definition emit :: "event list \<Rightarrow> world \<Rightarrow> world" where
  "emit es w = w\<lparr>trace := trace w @ es\<rparr>"

subsection \<open>Strings and paths\<close>

text \<open>
  \<^verbatim>\<open>str.lower\<close> on the letters that matter for a comparison with an ASCII word, the
  decimal digits of \<^verbatim>\<open>'{member}'.format(member=m)\<close>, and \<^verbatim>\<open>os.path.join\<close> of two parts.
\<close>

definition lower_char :: "char \<Rightarrow> char" where
  "lower_char c =
     (case map_of (zip ''ABCDEFGHIJKLMNOPQRSTUVWXYZ'' ''abcdefghijklmnopqrstuvwxyz'') c of
        Some l \<Rightarrow> l
      | None \<Rightarrow> c)"

definition lower :: "string \<Rightarrow> string" where
  "lower s = map lower_char s"

function str_of_nat :: "nat \<Rightarrow> string" where
  "str_of_nat n =
     (if n < 10 then [''0123456789'' ! n]
      else str_of_nat (n div 10) @ [''0123456789'' ! (n mod 10)])"
  by pat_completeness auto
termination
  by (relation "measure id") auto

definition path_join :: "string \<Rightarrow> string \<Rightarrow> string" where
  "path_join a b =
     (if b \<noteq> [] \<and> hd b = CHR ''/'' then b
      else if a = [] \<or> last a = CHR ''/'' then a @ b
      else a @ ''/'' @ b)"

text \<open>Lines 185 and 186 (and 227, 228): the cache file of a dataset and a member.\<close>

definition cache_filename :: "flags \<Rightarrow> string \<Rightarrow> nat \<Rightarrow> string" where
  "cache_filename FLAGS name m =
     path_join (output_dir FLAGS) (name @ ''_'' @ str_of_nat m @ ''.npy'')"

subsection \<open>Datasets and the model\<close>

text \<open>
  Modelled from the spec: the dataset provider (\<^verbatim>\<open>ub.datasets.ClincIntentDetectionDataset\<close>,
  not part of this repository) yields the examples of the test split in order, in batches
  of \<open>eval_batch_size\<close> examples; a last, shorter batch is kept here, and the script
  never reads it. Its \<open>num_test_examples\<close> is the number of examples.
\<close>

definition dataset_batches :: "int \<Rightarrow> 'a list \<Rightarrow> 'a list list" where
  "dataset_batches bs xs =
     (if bs \<le> 0 then []
      else map (\<lambda>k. take (nat bs) (drop (k * nat bs) xs))
             [0..<(length xs + nat bs - 1) div nat bs])"

text \<open>
  Lines 136 to 142. \<open>test_datasets\<close> and \<open>steps_per_eval\<close> are filled in one loop under
  the same keys, so the model keeps them together: one entry (name, batches, steps) per
  dataset, in the order of the dictionary. \<^verbatim>\<open>//\<close> is floor division and raises on a zero
  divisor.
\<close>

fun build_test_datasets ::
  "flags \<Rightarrow> int \<Rightarrow> (string \<times> ('x \<times> int) list) list \<Rightarrow> world
    \<Rightarrow> (error + (string \<times> ('x \<times> int) list list \<times> int) list) \<times> world" where
  "build_test_datasets FLAGS batch_size [] w = (Inr [], w)"
| "build_test_datasets FLAGS batch_size ((dataset_name, examples) # rest) w =
     (let w1 = emit [BuildDataset dataset_name] w in
      if batch_size = 0 then (Inl ZeroDivisionError, w1)
      else
        (case build_test_datasets FLAGS batch_size rest w1 of
           (Inl e, w2) \<Rightarrow> (Inl e, w2)
         | (Inr ds, w2) \<Rightarrow>
             (Inr ((dataset_name,
                    dataset_batches (per_core_batch_size FLAGS) examples,
                    int (length examples) div batch_size) # ds), w2)))"

text \<open>Lines 144 to 163: the model family, compared in lower case.\<close>

definition build_model :: "flags \<Rightarrow> world \<Rightarrow> error option \<times> world" where
  "build_model FLAGS w =
     (if lower (model_family FLAGS) = ''textcnn'' then (None, emit [BuildModel ''textcnn''] w)
      else if lower (model_family FLAGS) = ''bert'' then (None, emit [BuildModel ''bert''] w)
      else (Some (ValueError (''model_family ('' @ model_family FLAGS
                                @ '') can only be TextCNN or BERT.'')), w))"

subsection \<open>The inference phase\<close>

text \<open>
  Lines 188 to 194: \<open>steps\<close> forward passes over the first batches of a fresh iterator;
  \<^verbatim>\<open>next\<close> raises \<^verbatim>\<open>StopIteration\<close> on an exhausted iterator. The result is the list of the
  batches' logits.
\<close>

fun forward_steps ::
  "('x \<Rightarrow> real list) \<Rightarrow> nat \<Rightarrow> string \<Rightarrow> ('x \<times> int) list list \<Rightarrow> nat list \<Rightarrow> world
    \<Rightarrow> (error + real list list list) \<times> world" where
  "forward_steps f m name batches [] w = (Inr [], w)"
| "forward_steps f m name batches (k # ks) w =
     (if k < length batches then
        (let w1 = emit [Forward m name k] w in
         case forward_steps f m name batches ks w1 of
           (Inl e, w2) \<Rightarrow> (Inl e, w2)
         | (Inr ls, w2) \<Rightarrow> (Inr (map f (map fst (batches ! k)) # ls), w2))
      else (Inl StopIteration, w))"

text \<open>
  \<^verbatim>\<open>tf.concat(logits, axis=0)\<close>: the library refuses an empty list of tensors.
\<close>

definition tf_concat :: "real list list list \<Rightarrow> error + real list list" where
  "tf_concat ls = (if ls = [] then Inl InvalidArgumentError else Inr (concat ls))"

text \<open>
  Lines 187 to 198 for one member and one dataset: when the cache file is absent, run the
  model and write the file.
\<close>

definition predict_dataset ::
  "flags \<Rightarrow> ('x \<Rightarrow> real list) \<Rightarrow> nat \<Rightarrow> string \<Rightarrow> ('x \<times> int) list list \<Rightarrow> int \<Rightarrow> world
    \<Rightarrow> error option \<times> world" where
  "predict_dataset FLAGS f m name test_dataset steps w =
     (let filename = cache_filename FLAGS name m in
      if files w filename = None then
        (case forward_steps f m name test_dataset [0..<nat steps] w of
           (Inl e, w1) \<Rightarrow> (Some e, w1)
         | (Inr ls, w1) \<Rightarrow>
             (case tf_concat ls of
                Inl e \<Rightarrow> (Some e, w1)
              | Inr logits \<Rightarrow>
                  (None, emit [WriteFile filename]
                           (w1\<lparr>files := (files w1)(filename \<mapsto> logits)\<rparr>))))
      else (None, w))"

text \<open>
  Lines 184 to 203: the loop over the datasets for member \<open>m\<close>, the dataset index \<open>n\<close>
  counting up from the index of the first entry of the list.
\<close>

fun predict_datasets ::
  "flags \<Rightarrow> ('x \<Rightarrow> real list) \<Rightarrow> nat \<Rightarrow> nat \<Rightarrow> nat \<Rightarrow> nat
    \<Rightarrow> (string \<times> ('x \<times> int) list list \<times> int) list \<Rightarrow> world \<Rightarrow> error option \<times> world" where
  "predict_datasets FLAGS f m ensemble_size num_datasets n [] w = (None, w)"
| "predict_datasets FLAGS f m ensemble_size num_datasets n ((name, test_dataset, steps) # rest) w =
     (case predict_dataset FLAGS f m name test_dataset steps w of
        (Some e, w1) \<Rightarrow> (Some e, w1)
      | (None, w1) \<Rightarrow>
          (let percent = (real m * real num_datasets + (real n + 1))
                           / (real ensemble_size * real num_datasets);
               w2 = emit [LogPrediction percent (m + 1) ensemble_size (n + 1) num_datasets] w1
           in predict_datasets FLAGS f m ensemble_size num_datasets (n + 1) rest w2))"

text \<open>
  Lines 182 to 203: the loop over the checkpoints, the member index \<open>m\<close> counting up.
\<close>

fun predict_members ::
  "flags \<Rightarrow> (string \<Rightarrow> 'x \<Rightarrow> real list) \<Rightarrow> nat \<Rightarrow> nat \<Rightarrow> nat \<Rightarrow> string list
    \<Rightarrow> (string \<times> ('x \<times> int) list list \<times> int) list \<Rightarrow> world \<Rightarrow> error option \<times> world" where
  "predict_members FLAGS model ensemble_size num_datasets m [] test_datasets w = (None, w)"
| "predict_members FLAGS model ensemble_size num_datasets m (ensemble_filename # rest) test_datasets w =
     (let w1 = emit [Restore ensemble_filename] w in
      case predict_datasets FLAGS (model ensemble_filename) m ensemble_size num_datasets 0
             test_datasets w1 of
        (Some e, w2) \<Rightarrow> (Some e, w2)
      | (None, w2) \<Rightarrow>
          predict_members FLAGS model ensemble_size num_datasets (m + 1) rest test_datasets w2)"

subsection \<open>The evaluation phase\<close>

text \<open>Lines 225 to 230: the cached logits of every member; a missing file is fatal.\<close>

fun load_members ::
  "flags \<Rightarrow> string \<Rightarrow> nat list \<Rightarrow> world \<Rightarrow> (error + real list list list) \<times> world" where
  "load_members FLAGS name [] w = (Inr [], w)"
| "load_members FLAGS name (m # ms) w =
     (let filename = cache_filename FLAGS name m in
      case files w filename of
        None \<Rightarrow> (Inl (NotFoundError filename), w)
      | Some logits \<Rightarrow>
          (case load_members FLAGS name ms (emit [ReadFile filename] w) of
             (Inl e, w1) \<Rightarrow> (Inl e, w1)
           | (Inr rest, w1) \<Rightarrow> (Inr (logits # rest), w1)))"

text \<open>
  \<^verbatim>\<open>tf.reduce_mean\<close> of a vector to a scalar. The mean of no entry is \<open>NaN\<close>: the
  script does not fail on it and updates the metric with it.
\<close>

definition mean_scalar :: "real list \<Rightarrow> real option" where
  "mean_scalar xs = (if xs = [] then None else Some (reduce_mean xs))"

text \<open>
  Lines 239 to 256: the metrics of one batch. The cast of the labels to \<open>int32\<close> (here
  and on lines 68 and 96) is the identity on class indices and is not modelled.
\<close>

definition evaluate_batch ::
  "string \<Rightarrow> int list \<Rightarrow> real list list list \<Rightarrow> world \<Rightarrow> error option \<times> world" where
  "evaluate_batch name labels logits w =
     (case ensemble_negative_log_likelihood labels logits of
        Inl e \<Rightarrow> (Some e, w)
      | Inr nll \<Rightarrow>
          (let negative_log_likelihood = mean_scalar nll in
           if name = ''clean'' then
             (case gibbs_cross_entropy labels logits of
                Inl e \<Rightarrow> (Some e, w)
              | Inr gce \<Rightarrow>
                  (let gibbs_ce = mean_scalar gce in
                   (None, emit [UpdateMean ''test/negative_log_likelihood''
                                  negative_log_likelihood,
                                UpdateMean ''test/gibbs_cross_entropy'' gibbs_ce,
                                UpdateLabelsProbs ''test/accuracy'' labels (probs logits),
                                UpdateLabelsProbs ''test/ece'' labels (probs logits)] w)))
           else
             (None, emit [UpdateMean (''test/nll_'' @ name) negative_log_likelihood,
                          UpdateLabelsProbs (''test/accuracy_'' @ name) labels (probs logits),
                          UpdateLabelsProbs (''test/ece_'' @ name) labels (probs logits)] w)))"

text \<open>
  Lines 233 to 256: the loop over the steps; batch \<open>step\<close> of a fresh iterator gives the
  labels, and rows \<open>[step * batch_size, (step + 1) * batch_size)\<close> of every member give
  the logits.
\<close>

fun evaluate_steps ::
  "string \<Rightarrow> nat \<Rightarrow> ('x \<times> int) list list \<Rightarrow> real list list list \<Rightarrow> nat list \<Rightarrow> world
    \<Rightarrow> error option \<times> world" where
  "evaluate_steps name batch_size test_dataset logits_dataset [] w = (None, w)"
| "evaluate_steps name batch_size test_dataset logits_dataset (step # rest) w =
     (if step < length test_dataset then
        (let labels = map snd (test_dataset ! step);
             logits = map (\<lambda>a. take batch_size (drop (step * batch_size) a)) logits_dataset
         in case evaluate_batch name labels logits w of
              (Some e, w1) \<Rightarrow> (Some e, w1)
            | (None, w1) \<Rightarrow> evaluate_steps name batch_size test_dataset logits_dataset rest w1)
      else (Some StopIteration, w))"

text \<open>Lines 224 to 260: the loop over the datasets.\<close>

fun evaluate_datasets ::
  "flags \<Rightarrow> nat \<Rightarrow> int \<Rightarrow> nat \<Rightarrow> nat
    \<Rightarrow> (string \<times> ('x \<times> int) list list \<times> int) list \<Rightarrow> world \<Rightarrow> error option \<times> world" where
  "evaluate_datasets FLAGS ensemble_size batch_size num_datasets n [] w = (None, w)"
| "evaluate_datasets FLAGS ensemble_size batch_size num_datasets n
     ((name, test_dataset, steps) # rest) w =
     (case load_members FLAGS name [0..<ensemble_size] w of
        (Inl e, w1) \<Rightarrow> (Some e, w1)
      | (Inr logits_dataset, w1) \<Rightarrow>
          (case convert_to_tensor logits_dataset of
             Inl e \<Rightarrow> (Some e, w1)
           | Inr logits_dataset \<Rightarrow>
               (case evaluate_steps name (nat batch_size) test_dataset logits_dataset
                       [0..<nat steps] w1 of
                  (Some e, w2) \<Rightarrow> (Some e, w2)
                | (None, w2) \<Rightarrow>
                    evaluate_datasets FLAGS ensemble_size batch_size num_datasets (n + 1) rest
                      (emit [LogEvaluation ((real n + 1) / real num_datasets) (n + 1)
                               num_datasets] w2))))"

subsection \<open>The script\<close>

text \<open>
  \<^verbatim>\<open>main\<close>: the two accelerator checks, the output directory and the dataset builders,
  the test datasets and their step counts, the model, the checkpoints (the index files
  without their six-character suffix), the inference phase and the evaluation phase.
  The result is the exception raised, if any, and the world as the script leaves it.
\<close>

definition main :: "flags \<Rightarrow> 'x env \<Rightarrow> world \<Rightarrow> error option \<times> world" where
  "main FLAGS env w =
     (if \<not> use_gpu FLAGS then (Some (ValueError ''Only GPU is currently supported.''), w)
      else if num_cores FLAGS > 1
        then (Some (ValueError ''Only a single accelerator is currently supported.''), w)
      else
        (let w1 = emit [SetSeed (seed FLAGS), MakeDirs (output_dir FLAGS),
                        BuildDatasetBuilder ''ind'', BuildDatasetBuilder ''ood''] w;
             batch_size = per_core_batch_size FLAGS * num_cores FLAGS
         in case build_test_datasets FLAGS batch_size
                   [(''clean'', ind_examples env), (''ood'', ood_examples env)] w1 of
              (Inl e, w2) \<Rightarrow> (Some e, w2)
            | (Inr test_datasets, w2) \<Rightarrow>
                (case build_model FLAGS w2 of
                   (Some e, w3) \<Rightarrow> (Some e, w3)
                 | (None, w3) \<Rightarrow>
                     (let ensemble_filenames =
                            map (\<lambda>filename. take (length filename - 6) filename) (index_files env);
                          ensemble_size = length ensemble_filenames;
                          num_datasets = length test_datasets
                      in case predict_members FLAGS (net env) ensemble_size num_datasets 0
                                ensemble_filenames test_datasets w3 of
                           (Some e, w4) \<Rightarrow> (Some e, w4)
                         | (None, w4) \<Rightarrow>
                             (case evaluate_datasets FLAGS ensemble_size batch_size num_datasets 0
                                     test_datasets w4 of
                                (Some e, w5) \<Rightarrow> (Some e, w5)
                              | (None, w5) \<Rightarrow> (None, emit [LogMetrics] w5))))))"


subsection \<open>Notions used to state properties of a run\<close>

text \<open>
  \<open>extends_cache FLAGS w w'\<close>: the world \<open>w'\<close> continues \<open>w\<close> without touching what
  was cached in \<open>w\<close>. The trace has only grown; every file of \<open>w\<close> is still there with
  its contents; and in the new part of the trace every forward pass and every file
  written is for a cache file that did not exist in \<open>w\<close>.
\<close>

definition extends_cache :: "flags \<Rightarrow> world \<Rightarrow> world \<Rightarrow> bool" where
  "extends_cache FLAGS w w' =
     (\<exists>evs. trace w' = trace w @ evs
        \<and> (\<forall>fn v. files w fn = Some v \<longrightarrow> files w' fn = Some v)
        \<and> (\<forall>m name k. Forward m name k \<in> set evs \<longrightarrow> files w (cache_filename FLAGS name m) = None)
        \<and> (\<forall>fn. WriteFile fn \<in> set evs \<longrightarrow> files w fn = None))"






subsection \<open>Facts about the tensor operations\<close>

lemma collect_map_if:
  "collect (map (\<lambda>z. if P z then Inr (g z) else Inl e) zs) =
     (if list_all P zs then Inr (map g zs) else Inl e)"
  by (induction zs) auto

lemma sum_list_exp_pos:
  fixes f :: "'a \<Rightarrow> real"
  shows "xs \<noteq> [] \<Longrightarrow> 0 < sum_list (map (\<lambda>x. exp (f x)) xs)"
proof (cases xs)
  case Nil
  assume "xs \<noteq> []"
  with Nil show ?thesis by simp
next
  case (Cons a as)
  have "0 \<le> sum_list (map (\<lambda>x. exp (f x)) as)"
    by (rule sum_list_nonneg) auto
  moreover have "0 < exp (f a)" by simp
  ultimately show ?thesis using Cons by (simp add: add_pos_nonneg)
qed

lemma reduce_logsumexp_eq:
  assumes "xs \<noteq> []"
  shows "reduce_logsumexp xs = ln (sum_list (map exp xs))"
proof -
  define c where "c = Max (set xs)"
  have shift: "sum_list (map (\<lambda>x. exp (x - c)) xs) = exp (- c) * sum_list (map exp xs)"
    by (induction xs) (simp_all add: algebra_simps exp_diff exp_minus divide_simps)
  have pos: "0 < sum_list (map exp xs)"
    using sum_list_exp_pos [OF assms, of "\<lambda>x. x"] by simp
  have "ln (exp (- c) * sum_list (map exp xs)) = - c + ln (sum_list (map exp xs))"
    using pos by (simp add: ln_mult)
  then show ?thesis
    by (simp add: reduce_logsumexp_def c_def [symmetric] shift)
qed

lemma sparse2_unfold:
  "sparse_softmax_cross_entropy_with_logits2 labels rows =
     (if length labels = length rows
      then (if list_all (\<lambda>(y, r). 0 \<le> y \<and> y < int (length r)) (zip labels rows)
            then Inr (map (\<lambda>(y, r). - ln (softmax r ! nat y)) (zip labels rows))
            else Inl InvalidArgumentError)
      else Inl (ValueError ''Shape mismatch: labels and logits''))"
proof -
  have "map2 sparse_softmax_cross_entropy_with_logits1 labels rows =
        map (\<lambda>z. if (\<lambda>(y, r). 0 \<le> y \<and> y < int (length r)) z
                  then Inr ((\<lambda>(y, r). - ln (softmax r ! nat y)) z)
                  else Inl InvalidArgumentError) (zip labels rows)"
    by (rule map_cong) (auto simp: sparse_softmax_cross_entropy_with_logits1_def split: if_splits)
  then show ?thesis
    unfolding sparse_softmax_cross_entropy_with_logits2_def
    by (simp only: collect_map_if)
qed

lemma map2_replicate:
  "map2 f (replicate (length ys) x) ys = map (f x) ys"
  by (induction ys) auto

lemma rectangular_length:
  "rectangular xss \<Longrightarrow> xs \<in> set xss \<Longrightarrow> length xs = length (hd xss)"
  by (cases xss) (auto simp: rectangular_def list_all_iff)

lemma sparse3_unfold:
  assumes "\<forall>m\<in>set logits. length m = length lab"
  shows "sparse_softmax_cross_entropy_with_logits (replicate (length logits) lab) logits =
     (if list_all (\<lambda>m. list_all (\<lambda>(y, r). 0 \<le> y \<and> y < int (length r)) (zip lab m)) logits
      then Inr (map (\<lambda>m. map2 (\<lambda>y r. - ln (softmax r ! nat y)) lab m) logits)
      else Inl InvalidArgumentError)"
proof -
  have "map (sparse_softmax_cross_entropy_with_logits2 lab) logits =
        map (\<lambda>m. if list_all (\<lambda>(y, r). 0 \<le> y \<and> y < int (length r)) (zip lab m)
                  then Inr (map2 (\<lambda>y r. - ln (softmax r ! nat y)) lab m)
                  else Inl InvalidArgumentError) logits"
    using assms by (intro map_cong refl) (simp add: sparse2_unfold)
  then show ?thesis
    unfolding sparse_softmax_cross_entropy_with_logits_def
    by (simp only: length_replicate map2_replicate collect_map_if if_True refl)
qed

lemma ensemble_nll_unfold:
  assumes ne: "logits \<noteq> []"
    and rect: "rectangular logits" "rectangular (concat logits)"
    and len: "length lab = length (hd logits)"
    and bc: "broadcast_to labels (length logits) (length (hd logits)) = Inr (replicate (length logits) lab)"
  shows "ensemble_negative_log_likelihood labels logits =
     (if list_all (\<lambda>m. list_all (\<lambda>(y, r). 0 \<le> y \<and> y < int (length r)) (zip lab m)) logits
      then Inr (map (\<lambda>i. - reduce_logsumexp (map (\<lambda>m. ln (softmax (m ! i) ! nat (lab ! i))) logits)
                          + ln (real (length logits))) [0..<length lab])
      else Inl InvalidArgumentError)"
proof -
  have lens: "\<forall>m\<in>set logits. length m = length lab"
    using rectangular_length [OF rect(1)] len by simp
  have hdlen: "length (hd (map (map uminus) (map (\<lambda>m. map2 (\<lambda>y r. - ln (softmax r ! nat y)) lab m) logits))) = length lab"
    using ne lens by (cases logits) auto
  have col: "\<And>i. i < length lab \<Longrightarrow>
      map (\<lambda>xs. xs ! i) (map (map uminus) (map (\<lambda>m. map2 (\<lambda>y r. - ln (softmax r ! nat y)) lab m) logits))
      = map (\<lambda>m. ln (softmax (m ! i) ! nat (lab ! i))) logits"
    using lens by (auto simp: comp_def)
  have red: "reduce_axis0 reduce_logsumexp
       (map (map uminus) (map (\<lambda>m. map2 (\<lambda>y r. - ln (softmax r ! nat y)) lab m) logits))
     = map (\<lambda>i. reduce_logsumexp (map (\<lambda>m. ln (softmax (m ! i) ! nat (lab ! i))) logits)) [0..<length lab]"
    unfolding reduce_axis0_def hdlen
    by (rule map_cong [OF refl]) (simp only: set_upt atLeastLessThan_iff col)
  have conv: "convert_to_tensor logits = Inr logits"
    using rect by (simp add: convert_to_tensor_def)
  note sp = sparse3_unfold [OF lens]
  show ?thesis
  proof (cases "list_all (\<lambda>m. list_all (\<lambda>(y, r). 0 \<le> y \<and> y < int (length r)) (zip lab m)) logits")
    case True
    then show ?thesis
      unfolding ensemble_negative_log_likelihood_def
      by (simp only: conv sum.case ne if_False if_True Let_def bc sp red) (simp only: map_map comp_def)
  next
    case False
    then show ?thesis
      unfolding ensemble_negative_log_likelihood_def
      by (simp only: conv sum.case ne if_False Let_def bc sp)
  qed
qed

lemma gibbs_unfold:
  assumes ne: "logits \<noteq> []"
    and rect: "rectangular logits" "rectangular (concat logits)"
    and len: "length lab = length (hd logits)"
    and bc: "broadcast_to labels (length logits) (length (hd logits)) = Inr (replicate (length logits) lab)"
  shows "gibbs_cross_entropy labels logits =
     (if list_all (\<lambda>m. list_all (\<lambda>(y, r). 0 \<le> y \<and> y < int (length r)) (zip lab m)) logits
      then Inr (map (\<lambda>i. reduce_mean (map (\<lambda>m. - ln (softmax (m ! i) ! nat (lab ! i))) logits))
                  [0..<length lab])
      else Inl InvalidArgumentError)"
proof -
  have lens: "\<forall>m\<in>set logits. length m = length lab"
    using rectangular_length [OF rect(1)] len by simp
  have hdlen: "length (hd (map (\<lambda>m. map2 (\<lambda>y r. - ln (softmax r ! nat y)) lab m) logits)) = length lab"
    using ne lens by (cases logits) auto
  have col: "\<And>i. i < length lab \<Longrightarrow>
      map (\<lambda>xs. xs ! i) (map (\<lambda>m. map2 (\<lambda>y r. - ln (softmax r ! nat y)) lab m) logits)
      = map (\<lambda>m. - ln (softmax (m ! i) ! nat (lab ! i))) logits"
    using lens by (auto simp: comp_def)
  have red: "reduce_axis0 reduce_mean
       (map (\<lambda>m. map2 (\<lambda>y r. - ln (softmax r ! nat y)) lab m) logits)
     = map (\<lambda>i. reduce_mean (map (\<lambda>m. - ln (softmax (m ! i) ! nat (lab ! i))) logits)) [0..<length lab]"
    unfolding reduce_axis0_def hdlen
    by (rule map_cong [OF refl]) (simp only: set_upt atLeastLessThan_iff col)
  have conv: "convert_to_tensor logits = Inr logits"
    using rect by (simp add: convert_to_tensor_def)
  note sp = sparse3_unfold [OF lens]
  show ?thesis
  proof (cases "list_all (\<lambda>m. list_all (\<lambda>(y, r). 0 \<le> y \<and> y < int (length r)) (zip lab m)) logits")
    case True
    then show ?thesis
      unfolding gibbs_cross_entropy_def
      by (simp only: conv sum.case ne if_False if_True bc sp red)
  next
    case False
    then show ?thesis
      unfolding gibbs_cross_entropy_def
      by (simp only: conv sum.case ne if_False bc sp)
  qed
qed

lemma softmax_nth:
  "c < length r \<Longrightarrow> softmax r ! c = exp (r ! c) / sum_list (map exp r)"
  by (simp add: softmax_def)

lemma softmax_pos:
  assumes "c < length r"
  shows "0 < softmax r ! c"
proof -
  from assms have "r \<noteq> []" by auto
  then have "0 < sum_list (map (\<lambda>x. exp x) r)" by (rule sum_list_exp_pos)
  then show ?thesis using assms by (simp add: softmax_nth)
qed

lemma sum_list_divide_const:
  fixes f :: "'a \<Rightarrow> real"
  shows "sum_list (map (\<lambda>x. f x / c) xs) = sum_list (map f xs) / c"
  by (induction xs) (simp_all add: add_divide_distrib)

lemma softmax_sum:
  assumes "r \<noteq> []"
  shows "sum_list (softmax r) = 1"
proof -
  have "0 < sum_list (map (\<lambda>x. exp x) r)" using assms by (rule sum_list_exp_pos)
  then show ?thesis
    by (simp add: softmax_def sum_list_divide_const)
qed

lemma logsumexp_ln:
  fixes p :: "'a \<Rightarrow> real"
  assumes "ms \<noteq> []" "\<forall>m\<in>set ms. 0 < p m"
  shows "reduce_logsumexp (map (\<lambda>m. ln (p m)) ms) = ln (sum_list (map p ms))"
proof -
  have "map exp (map (\<lambda>m. ln (p m)) ms) = map p ms"
    using assms(2) by (simp)
  then show ?thesis using assms(1) by (simp add: reduce_logsumexp_eq del: map_map)
qed

lemma jensen_logsumexp:
  fixes xs :: "real list"
  assumes "xs \<noteq> []"
  shows "- ln (sum_list (map (\<lambda>x. exp (- x)) xs)) + ln (real (length xs))
           \<le> sum_list xs / real (length xs)"
proof -
  define n where "n = real (length xs)"
  define g where "g = sum_list xs / n"
  have npos: "0 < n" using assms by (simp add: n_def)
  have S: "0 < sum_list (map (\<lambda>x. exp (- x)) xs)"
    using assms by (rule sum_list_exp_pos)
  have lin: "sum_list (map (\<lambda>x. 1 + (g - x)) ys) = real (length ys) + real (length ys) * g - sum_list ys" for ys :: "real list"
    by (induction ys) (simp_all add: algebra_simps)
  have "sum_list (map (\<lambda>x. 1 + (g - x)) xs) \<le> sum_list (map (\<lambda>x. exp (g - x)) xs)"
    by (rule sum_list_mono) simp
  moreover have "sum_list (map (\<lambda>x. 1 + (g - x)) xs) = n"
  proof -
    have "sum_list (map (\<lambda>x. 1 + (g - x)) xs) = n + n * g - sum_list xs"
      by (simp only: lin n_def)
    also have "\<dots> = n" using npos by (simp add: g_def)
    finally show ?thesis .
  qed
  moreover have "sum_list (map (\<lambda>x. exp (g - x)) ys) = exp g * sum_list (map (\<lambda>x. exp (- x)) ys)" for ys :: "real list"
    by (induction ys) (simp_all add: algebra_simps exp_diff exp_minus divide_simps)
  ultimately have "n \<le> exp g * sum_list (map (\<lambda>x. exp (- x)) xs)" by simp
  then have "ln n \<le> ln (exp g * sum_list (map (\<lambda>x. exp (- x)) xs))"
    using npos by (simp add: ln_le_cancel_iff S)
  also have "\<dots> = g + ln (sum_list (map (\<lambda>x. exp (- x)) xs))"
    using S by (simp add: ln_mult)
  finally show ?thesis by (simp add: n_def g_def)
qed

lemma rectangularI:
  "\<forall>xs\<in>set xss. length xs = n \<Longrightarrow> rectangular xss"
  by (cases xss) (auto simp: rectangular_def list_all_iff)

lemma shape_rectangular:
  assumes "\<forall>m\<in>set logits. length m = B" "\<forall>m\<in>set logits. \<forall>r\<in>set m. length r = C"
  shows "rectangular logits" "rectangular (concat logits)"
proof -
  show "rectangular logits"
    using assms(1) by (rule rectangularI)
  have "\<forall>r\<in>set (concat logits). length r = C" using assms(2) by auto
  then show "rectangular (concat logits)"
    by (rule rectangularI)
qed

lemma in_range_shape:
  assumes "\<forall>m\<in>set logits. length m = length labels"
    and "\<forall>m\<in>set logits. \<forall>r\<in>set m. length r = C"
    and "\<forall>y\<in>set labels. 0 \<le> y \<and> y < int C"
  shows "list_all (\<lambda>m. list_all (\<lambda>(y, r). 0 \<le> y \<and> y < int (length r)) (zip labels m)) logits"
  unfolding list_all_iff
proof (intro ballI, clarify)
  fix m y r assume m: "m \<in> set logits" and z: "(y, r) \<in> set (zip labels m)"
  from z have "y \<in> set labels" "r \<in> set m"
    by (auto dest: set_zip_leftD set_zip_rightD)
  with m assms show "0 \<le> y \<and> y < int (length r)" by auto
qed

lemma label_prob_pos:
  assumes B: "\<forall>m\<in>set logits. length m = length labels"
    and C: "\<forall>m\<in>set logits. \<forall>r\<in>set m. length r = C"
    and L: "\<forall>y\<in>set labels. 0 \<le> y \<and> y < int C"
    and m: "m \<in> set logits" and i: "i < length labels"
  shows "0 < softmax (m ! i) ! nat (labels ! i)"
proof -
  have "m ! i \<in> set m" using m i B by simp
  then have "length (m ! i) = C" using m C by blast
  moreover have "0 \<le> labels ! i \<and> labels ! i < int C" using i L by simp
  ultimately show ?thesis by (intro softmax_pos) auto
qed

lemma ensemble_nll_shaped:
  assumes M: "logits \<noteq> []"
    and B: "\<forall>m\<in>set logits. length m = length labels"
    and C: "\<forall>m\<in>set logits. \<forall>r\<in>set m. length r = C"
    and L: "\<forall>y\<in>set labels. 0 \<le> y \<and> y < int C"
  shows "ensemble_negative_log_likelihood labels logits =
           Inr (map (\<lambda>i. - ln (\<Sum>m\<leftarrow>logits. softmax (m ! i) ! nat (labels ! i))
                          + ln (real (length logits)))
                  [0..<length labels])"
proof -
  note rect = shape_rectangular [OF B C]
  have hd: "length labels = length (hd logits)" using M B by (cases logits) auto
  have bc: "broadcast_to labels (length logits) (length (hd logits)) = Inr (replicate (length logits) labels)"
    using hd by (simp add: broadcast_to_def)
  note ir = in_range_shape [OF B C L]
  have E: "ensemble_negative_log_likelihood labels logits =
      Inr (map (\<lambda>i. - reduce_logsumexp (map (\<lambda>m. ln (softmax (m ! i) ! nat (labels ! i))) logits)
                          + ln (real (length logits))) [0..<length labels])"
    using ensemble_nll_unfold [OF M rect hd bc] ir by simp
  have lse: "reduce_logsumexp (map (\<lambda>m. ln (softmax (m ! i) ! nat (labels ! i))) logits)
           = ln (\<Sum>m\<leftarrow>logits. softmax (m ! i) ! nat (labels ! i))" if "i < length labels" for i
    using that label_prob_pos [OF B C L] M by (intro logsumexp_ln) auto
  have "map (\<lambda>i. - reduce_logsumexp (map (\<lambda>m. ln (softmax (m ! i) ! nat (labels ! i))) logits)
                          + ln (real (length logits))) [0..<length labels]
      = map (\<lambda>i. - ln (\<Sum>m\<leftarrow>logits. softmax (m ! i) ! nat (labels ! i))
                          + ln (real (length logits))) [0..<length labels]"
    by (rule map_cong [OF refl]) (simp only: set_upt atLeastLessThan_iff lse)
  with E show ?thesis by simp
qed

lemma gibbs_shaped:
  assumes M: "logits \<noteq> []"
    and B: "\<forall>m\<in>set logits. length m = length labels"
    and C: "\<forall>m\<in>set logits. \<forall>r\<in>set m. length r = C"
    and L: "\<forall>y\<in>set labels. 0 \<le> y \<and> y < int C"
  shows "gibbs_cross_entropy labels logits =
           Inr (map (\<lambda>i. (\<Sum>m\<leftarrow>logits. - ln (softmax (m ! i) ! nat (labels ! i)))
                          / real (length logits))
                  [0..<length labels])"
proof -
  note rect = shape_rectangular [OF B C]
  have hd: "length labels = length (hd logits)" using M B by (cases logits) auto
  have bc: "broadcast_to labels (length logits) (length (hd logits)) = Inr (replicate (length logits) labels)"
    using hd by (simp add: broadcast_to_def)
  note ir = in_range_shape [OF B C L]
  show ?thesis
    using gibbs_unfold [OF M rect hd bc] ir by (simp add: reduce_mean_def)
qed

lemma reduce_logsumexp_single: "reduce_logsumexp [x] = x"
  by (simp add: reduce_logsumexp_def)

lemma reduce_mean_single: "reduce_mean [x] = x"
  by (simp add: reduce_mean_def)

lemma map2_as_nth:
  "length xs = length ys \<Longrightarrow> map2 f xs ys = map (\<lambda>i. f (xs ! i) (ys ! i)) [0..<length xs]"
  by (rule nth_equalityI) auto

lemma sum_list_swap:
  fixes f :: "'a \<Rightarrow> 'b \<Rightarrow> real"
  shows "(\<Sum>c\<leftarrow>cs. \<Sum>m\<leftarrow>ms. f m c) = (\<Sum>m\<leftarrow>ms. \<Sum>c\<leftarrow>cs. f m c)"
  by (induction ms) (simp_all add: sum_list_addf)

lemma probs_unfold:
  assumes M: "logits \<noteq> []"
    and B: "\<forall>m\<in>set logits. length m = B"
    and C: "\<forall>m\<in>set logits. \<forall>r\<in>set m. length r = C"
    and i: "i < B"
  shows "length (probs logits) = B"
    and "probs logits ! i = map (\<lambda>c. (\<Sum>m\<leftarrow>logits. softmax (m ! i) ! c) / real (length logits)) [0..<C]"
proof -
  have hdB: "length (hd (map (map softmax) logits)) = B"
    using M B by (cases logits) auto
  show "length (probs logits) = B"
    by (simp only: probs_def per_probs_def reduce_axis0_def hdB length_map length_upt minus_nat.diff_0)
  have rows: "map (\<lambda>xs. xs ! i) (map (map softmax) logits) = map (\<lambda>m. softmax (m ! i)) logits"
    using B i by simp
  have hdC: "length (hd (map (\<lambda>m. softmax (m ! i)) logits)) = C"
  proof -
    obtain m ms where l: "logits = m # ms" using M by (cases logits) auto
    then have "m ! i \<in> set m" using B i by simp
    then have "length (m ! i) = C" using C l by simp
    then show ?thesis by (simp add: l softmax_def)
  qed
  have "probs logits ! i = reduce_axis0 reduce_mean (map (\<lambda>xs. xs ! i) (map (map softmax) logits))"
    using i by (simp add: probs_def per_probs_def reduce_axis0_def hdB del: map_map)
  also have "\<dots> = reduce_axis0 reduce_mean (map (\<lambda>m. softmax (m ! i)) logits)"
    by (simp only: rows)
  also have "\<dots> = map (\<lambda>c. (\<Sum>m\<leftarrow>logits. softmax (m ! i) ! c) / real (length logits)) [0..<C]"
    by (simp add: reduce_axis0_def hdC reduce_mean_def comp_def)
  finally show "probs logits ! i = map (\<lambda>c. (\<Sum>m\<leftarrow>logits. softmax (m ! i) ! c) / real (length logits)) [0..<C]" .
qed

lemma rectangular_iff:
  "rectangular xss \<longleftrightarrow> (\<forall>xs\<in>set xss. \<forall>ys\<in>set xss. length xs = length ys)"
  by (cases xss) (auto simp: rectangular_def list_all_iff)

lemma reduce_logsumexp_mset:
  assumes "mset xs = mset ys"
  shows "reduce_logsumexp xs = reduce_logsumexp ys"
proof -
  have "set xs = set ys" using assms by (rule mset_eq_setD)
  moreover have "sum_list (map f xs) = sum_list (map f ys)" for f :: "real \<Rightarrow> real"
  proof -
    have "mset (map f xs) = mset (map f ys)" using assms by simp
    then have "sum_mset (mset (map f xs)) = sum_mset (mset (map f ys))" by simp
    then show ?thesis by (simp only: sum_mset_sum_list)
  qed
  ultimately show ?thesis by (simp add: reduce_logsumexp_def)
qed

lemma reduce_mean_mset:
  assumes "mset xs = mset ys"
  shows "reduce_mean xs = reduce_mean ys"
proof -
  have "sum_mset (mset xs) = sum_mset (mset ys)" using assms by simp
  then have "sum_list xs = sum_list ys" by (simp only: sum_mset_sum_list)
  moreover have "length xs = length ys" using assms by (rule mset_eq_length)
  ultimately show ?thesis by (simp add: reduce_mean_def)
qed

lemma broadcast_to_cases:
  obtains (bad) "broadcast_to labels M B = Inl InvalidArgumentError"
  | (ok) lab where "length lab = B" "broadcast_to labels M B = Inr (replicate M lab)"
proof (cases "length labels = B")
  case True
  then show ?thesis by (intro ok [of labels]) (simp_all add: broadcast_to_def)
next
  case False
  show ?thesis
  proof (cases "length labels = 1")
    case True
    with False show ?thesis
      by (intro ok [of "replicate B (hd labels)"]) (simp_all add: broadcast_to_def)
  next
    case False
    with \<open>length labels \<noteq> B\<close> show ?thesis by (intro bad) (simp add: broadcast_to_def)
  qed
qed

subsection \<open>Properties of the ensemble reductions\<close>

text \<open>
  Claim C1. For labels of shape \<open>[B]\<close> with entries in \<open>[0, C)\<close> and logits of shape
  \<open>[M, B, C]\<close> with \<open>M \<ge> 1\<close>, \<^verbatim>\<open>ensemble_negative_log_likelihood\<close> returns, for
  every example \<open>i\<close>, the value \<open>- ln (\<Sum>\<^sub>m exp (- nll\<^sub>m)) + ln M\<close>, where
  \<open>nll\<^sub>m = - ln (softmax (logits\<^sub>m\<^sub>i) ! label\<^sub>i)\<close> is the sparse softmax cross-entropy of
  member \<open>m\<close>; and this is the negated logarithm of the arithmetic mean over the members
  of the probability each gives the true label. The logarithm of the sum of exponentials
  is the mathematical one; the code computes it shifted by the maximum.
\<close>

theorem ensemble_nll_formula:
  assumes M: "logits \<noteq> []"
    and B: "\<forall>m\<in>set logits. length m = length labels"
    and C: "\<forall>m\<in>set logits. \<forall>r\<in>set m. length r = C"
    and L: "\<forall>y\<in>set labels. 0 \<le> y \<and> y < int C"
  shows "ensemble_negative_log_likelihood labels logits =
           Inr (map (\<lambda>i. - ln (\<Sum>m\<leftarrow>logits. exp (- (- ln (softmax (m ! i) ! nat (labels ! i)))))
                          + ln (real (length logits)))
                  [0..<length labels])
       \<and> ensemble_negative_log_likelihood labels logits =
           Inr (map (\<lambda>i. - ln ((\<Sum>m\<leftarrow>logits. softmax (m ! i) ! nat (labels ! i))
                                 / real (length logits)))
                  [0..<length labels])"
proof -
  let ?p = "\<lambda>i m. softmax (m ! i) ! nat (labels ! i)"
  note pos = label_prob_pos [OF B C L]
  have expln: "(\<Sum>m\<leftarrow>logits. exp (- (- ln (?p i m)))) = (\<Sum>m\<leftarrow>logits. ?p i m)"
    if "i < length labels" for i
    using pos that by (intro arg_cong [where f = sum_list] map_cong) auto
  have S: "0 < (\<Sum>m\<leftarrow>logits. ?p i m)" if "i < length labels" for i
  proof -
    have "0 < (\<Sum>m\<leftarrow>logits. exp (ln (?p i m)))"
      using M by (rule sum_list_exp_pos)
    moreover have "map (\<lambda>m. exp (ln (?p i m))) logits = map (?p i) logits"
      using pos that by (intro map_cong) auto
    ultimately show ?thesis by simp
  qed
  have one: "map (\<lambda>i. - ln (\<Sum>m\<leftarrow>logits. ?p i m) + ln (real (length logits))) [0..<length labels]
      = map (\<lambda>i. - ln (\<Sum>m\<leftarrow>logits. exp (- (- ln (?p i m)))) + ln (real (length logits)))
          [0..<length labels]"
    by (rule map_cong [OF refl]) (simp only: set_upt atLeastLessThan_iff expln)
  have two: "map (\<lambda>i. - ln (\<Sum>m\<leftarrow>logits. ?p i m) + ln (real (length logits))) [0..<length labels]
      = map (\<lambda>i. - ln ((\<Sum>m\<leftarrow>logits. ?p i m) / real (length logits))) [0..<length labels]"
  proof (rule map_cong [OF refl])
    fix i assume "i \<in> set [0..<length labels]"
    then have i: "i < length labels" by simp
    have "0 < real (length logits)" using M by simp
    then show "- ln (\<Sum>m\<leftarrow>logits. ?p i m) + ln (real (length logits))
         = - ln ((\<Sum>m\<leftarrow>logits. ?p i m) / real (length logits))"
      using S [OF i] by (simp add: ln_div)
  qed
  show ?thesis
    using ensemble_nll_shaped [OF M B C L] one two by simp
qed

theorem ensemble_nll_formula_witness:
  "ensemble_negative_log_likelihood [0] [[[0, 0]], [[0, 0]]] = Inr [ln 2]"
  using ensemble_nll_formula [of "[[[0, 0]], [[0, 0]]]" "[0]" 2]
  by (simp add: softmax_def)

text \<open>
  Claim C2. For the same inputs \<^verbatim>\<open>gibbs_cross_entropy\<close> returns, for every example, the
  arithmetic mean over the members of \<open>nll\<^sub>m\<close>: a mean of negated log-likelihoods, and
  not the logarithm of a mean of probabilities.
\<close>

theorem gibbs_formula:
  assumes M: "logits \<noteq> []"
    and B: "\<forall>m\<in>set logits. length m = length labels"
    and C: "\<forall>m\<in>set logits. \<forall>r\<in>set m. length r = C"
    and L: "\<forall>y\<in>set labels. 0 \<le> y \<and> y < int C"
  shows "gibbs_cross_entropy labels logits =
           Inr (map (\<lambda>i. (\<Sum>m\<leftarrow>logits. - ln (softmax (m ! i) ! nat (labels ! i)))
                          / real (length logits))
                  [0..<length labels])"
  using assms by (rule gibbs_shaped)

theorem gibbs_formula_witness:
  "gibbs_cross_entropy [0] [[[0, 0]], [[0, 0]]] = Inr [ln 2]"
  using gibbs_formula [of "[[[0, 0]], [[0, 0]]]" "[0]" 2]
  by (simp add: softmax_def ln_div)

text \<open>
  Claim C4. With a single member (\<open>M = 1\<close>) there is no ensembling effect:
  \<^verbatim>\<open>ensemble_negative_log_likelihood\<close> and \<^verbatim>\<open>gibbs_cross_entropy\<close> both return what the
  sparse softmax cross-entropy of the one member returns, the same values and, for a
  label outside the classes, the same error.
\<close>

theorem single_member_no_ensembling:
  assumes B: "length member = length labels"
    and C: "\<forall>r\<in>set member. length r = C"
  shows "ensemble_negative_log_likelihood labels [member]
           = sparse_softmax_cross_entropy_with_logits2 labels member
       \<and> gibbs_cross_entropy labels [member]
           = sparse_softmax_cross_entropy_with_logits2 labels member"
proof -
  have ne: "[member] \<noteq> []" by simp
  have r1: "rectangular [member]" by (simp add: rectangular_def)
  have r2: "rectangular (concat [member])" using rectangularI [OF C] by simp
  have hd: "length labels = length (hd [member])" using B by simp
  have bc: "broadcast_to labels (length [member]) (length (hd [member]))
              = Inr (replicate (length [member]) labels)"
    using B by (simp add: broadcast_to_def)
  have single: "sparse_softmax_cross_entropy_with_logits2 labels member =
     (if list_all (\<lambda>(y, r). 0 \<le> y \<and> y < int (length r)) (zip labels member)
      then Inr (map (\<lambda>i. - ln (softmax (member ! i) ! nat (labels ! i))) [0..<length labels])
      else Inl InvalidArgumentError)"
    using B by (simp add: sparse2_unfold map2_as_nth)
  have "ensemble_negative_log_likelihood labels [member]
           = sparse_softmax_cross_entropy_with_logits2 labels member"
    unfolding ensemble_nll_unfold [OF ne r1 r2 hd bc] single
    by (simp add: reduce_logsumexp_single)
  moreover have "gibbs_cross_entropy labels [member]
           = sparse_softmax_cross_entropy_with_logits2 labels member"
    unfolding gibbs_unfold [OF ne r1 r2 hd bc] single
    by (simp add: reduce_mean_single)
  ultimately show ?thesis by simp
qed

theorem single_member_no_ensembling_witness:
  "ensemble_negative_log_likelihood [1] [[[0, 0]]]
      = sparse_softmax_cross_entropy_with_logits2 [1] [[0, 0]]
   \<and> gibbs_cross_entropy [1] [[[0, 0]]]
      = sparse_softmax_cross_entropy_with_logits2 [1] [[0, 0]]"
  using single_member_no_ensembling [of "[[0, 0]]" "[1]" 2]
  by simp

subsection \<open>The reductions in exact arithmetic\<close>

text \<open>
  Three facts of the reductions as computed over the real numbers. They describe the
  quantities the code approximates, and are not statements about the values the
  \<open>float32\<close> code returns: rounding can break each of them in the last place.

  Jensen's inequality: at every example the ensemble negative log-likelihood is at most
  the Gibbs cross-entropy.
\<close>

lemma exact_ensemble_nll_le_gibbs:
  assumes M: "logits \<noteq> []"
    and B: "\<forall>m\<in>set logits. length m = length labels"
    and C: "\<forall>m\<in>set logits. \<forall>r\<in>set m. length r = C"
    and L: "\<forall>y\<in>set labels. 0 \<le> y \<and> y < int C"
  shows "\<exists>e g. ensemble_negative_log_likelihood labels logits = Inr e
             \<and> gibbs_cross_entropy labels logits = Inr g
             \<and> length e = length labels \<and> length g = length labels
             \<and> (\<forall>i<length labels. e ! i \<le> g ! i)"
proof -
  let ?p = "\<lambda>i m. softmax (m ! i) ! nat (labels ! i)"
  have le: "- ln (\<Sum>m\<leftarrow>logits. ?p i m) + ln (real (length logits))
          \<le> (\<Sum>m\<leftarrow>logits. - ln (?p i m)) / real (length logits)" if i: "i < length labels" for i
  proof -
    have "map (\<lambda>x. exp (- x)) (map (\<lambda>m. - ln (?p i m)) logits) = map (?p i) logits"
      using label_prob_pos [OF B C L _ i] by (simp)
    moreover have "map (\<lambda>m. - ln (?p i m)) logits \<noteq> []" using M by simp
    from jensen_logsumexp [OF this]
    have "- ln (sum_list (map (\<lambda>x. exp (- x)) (map (\<lambda>m. - ln (?p i m)) logits))) + ln (real (length logits))
           \<le> sum_list (map (\<lambda>m. - ln (?p i m)) logits) / real (length logits)"
      by simp
    ultimately show ?thesis by (simp only:)
  qed
  have "\<forall>i<length labels.
          map (\<lambda>i. - ln (\<Sum>m\<leftarrow>logits. ?p i m) + ln (real (length logits))) [0..<length labels] ! i
        \<le> map (\<lambda>i. (\<Sum>m\<leftarrow>logits. - ln (?p i m)) / real (length logits)) [0..<length labels] ! i"
  proof (intro allI impI)
    fix i assume i: "i < length labels"
    show "map (\<lambda>i. - ln (\<Sum>m\<leftarrow>logits. ?p i m) + ln (real (length logits))) [0..<length labels] ! i
        \<le> map (\<lambda>i. (\<Sum>m\<leftarrow>logits. - ln (?p i m)) / real (length logits)) [0..<length labels] ! i"
      using le [OF i] i by simp
  qed
  then show ?thesis
    unfolding ensemble_nll_shaped [OF M B C L] gibbs_shaped [OF M B C L]
    by (intro exI conjI refl) (simp_all only: length_map length_upt minus_nat.diff_0)
qed

lemma ensemble_nll_le_gibbs_example:
  "\<exists>e g. ensemble_negative_log_likelihood [0] [[[0, 0]], [[0, 0]]] = Inr e
       \<and> gibbs_cross_entropy [0] [[[0, 0]], [[0, 0]]] = Inr g
       \<and> e ! 0 \<le> g ! 0"
  using exact_ensemble_nll_le_gibbs [of "[[[0, 0]], [[0, 0]]]" "[0]" 2]
  by auto


text \<open>
  The mean over the members of the softmax rows is a probability vector: its entries
  sum to 1.
\<close>

lemma exact_probs_sum_to_one:
  assumes M: "logits \<noteq> []"
    and B: "\<forall>m\<in>set logits. length m = B"
    and C: "\<forall>m\<in>set logits. \<forall>r\<in>set m. length r = C"
    and pos: "0 < C"
  shows "length (probs logits) = B \<and> (\<forall>i<B. length (probs logits ! i) = C \<and> sum_list (probs logits ! i) = 1)"
proof (intro conjI allI impI)
  show "length (probs logits) = B"
    using M B C by (cases B) (auto simp: probs_def per_probs_def reduce_axis0_def hd_map)
next
  fix i assume i: "i < B"
  note P = probs_unfold(2) [OF M B C i]
  show "length (probs logits ! i) = C" by (simp add: P)
  have row: "(\<Sum>c\<leftarrow>[0..<C]. softmax (m ! i) ! c) = 1" if "m \<in> set logits" for m
  proof -
    have "m ! i \<in> set m" using that B i by simp
    then have len: "length (softmax (m ! i)) = C" using that C by (simp add: softmax_def)
    then have "m ! i \<noteq> []" using pos by (auto simp: softmax_def)
    then have "sum_list (softmax (m ! i)) = 1" by (rule softmax_sum)
    moreover have "map (\<lambda>c. softmax (m ! i) ! c) [0..<C] = softmax (m ! i)"
      using len map_nth [of "softmax (m ! i)"] by simp
    ultimately show ?thesis by simp
  qed
  have "sum_list (probs logits ! i) = (\<Sum>c\<leftarrow>[0..<C]. \<Sum>m\<leftarrow>logits. softmax (m ! i) ! c) / real (length logits)"
    by (simp only: P sum_list_divide_const)
  also have "(\<Sum>c\<leftarrow>[0..<C]. \<Sum>m\<leftarrow>logits. softmax (m ! i) ! c) = (\<Sum>m\<leftarrow>logits. \<Sum>c\<leftarrow>[0..<C]. softmax (m ! i) ! c)"
    by (rule sum_list_swap)
  also have "\<dots> = (\<Sum>m\<leftarrow>logits. 1)"
    using row by (intro arg_cong [where f = sum_list] map_cong) auto
  also have "\<dots> = real (length logits)"
    by (simp add: sum_list_triv)
  finally show "sum_list (probs logits ! i) = 1" using M by simp
qed

lemma probs_sum_to_one_example:
  "sum_list (probs [[[0, 0]], [[0, 0]]] ! 0) = 1"
  using exact_probs_sum_to_one [of "[[[0, 0]], [[0, 0]]]" 1 2]
  by simp


text \<open>
  Both reductions are symmetric in the members: a list with the same multiset of
  members gives the same result.
\<close>

lemma exact_member_order_irrelevant:
  assumes perm: "mset logits' = mset logits"
  shows "ensemble_negative_log_likelihood labels logits' = ensemble_negative_log_likelihood labels logits
       \<and> gibbs_cross_entropy labels logits' = gibbs_cross_entropy labels logits"
proof -
  have S: "set logits' = set logits" using perm by (rule mset_eq_setD)
  have N: "length logits' = length logits" using perm by (rule mset_eq_length)
  have SC: "set (concat logits') = set (concat logits)" using S by simp
  have R1: "rectangular logits' = rectangular logits" by (simp only: rectangular_iff S)
  have R2: "rectangular (concat logits') = rectangular (concat logits)" by (simp only: rectangular_iff SC)
  show ?thesis
  proof (cases "rectangular logits \<and> rectangular (concat logits)")
    case False
    then have c: "\<exists>e. convert_to_tensor logits = Inl e"
      by (auto simp: convert_to_tensor_def)
    from False have "\<not> (rectangular logits' \<and> rectangular (concat logits'))"
      by (simp only: R1 R2 not_False_eq_True)
    then have c': "convert_to_tensor logits' = convert_to_tensor logits"
      using False by (auto simp: convert_to_tensor_def)
    from c obtain e where e: "convert_to_tensor logits = Inl e" by blast
    show ?thesis
      unfolding ensemble_negative_log_likelihood_def gibbs_cross_entropy_def
      by (simp only: c' e sum.case simp_thms)
  next
    case rect: True
    then have rect': "rectangular logits'" "rectangular (concat logits')" using R1 R2 by simp_all
    show ?thesis
    proof (cases "logits = []")
      case True
      then have "logits' = []" using N by simp
      with True show ?thesis by simp
    next
      case ne: False
      then have ne': "logits' \<noteq> []" using N by auto
      have "hd logits' \<in> set logits'" using ne' by (rule hd_in_set)
      then have "hd logits' \<in> set logits" by (simp only: S)
      then have hd: "length (hd logits') = length (hd logits)"
        using rect by (intro rectangular_length) simp_all
      show ?thesis
      proof (cases labels "length logits" "length (hd logits)" rule: broadcast_to_cases)
        case bad
        have c: "convert_to_tensor logits = Inr logits" "convert_to_tensor logits' = Inr logits'"
          using rect rect' by (simp_all add: convert_to_tensor_def)
        have bad': "broadcast_to labels (length logits') (length (hd logits')) = Inl InvalidArgumentError"
          using bad by (simp only: N hd)
        show ?thesis
          unfolding ensemble_negative_log_likelihood_def gibbs_cross_entropy_def
          by (simp only: c sum.case ne ne' if_False Let_def bad bad' simp_thms)
      next
        case (ok lab)
        have ok': "length lab = length (hd logits')"
          "broadcast_to labels (length logits') (length (hd logits')) = Inr (replicate (length logits') lab)"
          using ok by (simp_all add: N hd)
        have P: "list_all Q logits' = list_all Q logits" for Q
          by (simp add: list_all_iff S)
        have pm: "mset (map g logits') = mset (map g logits)" for g :: "real list list \<Rightarrow> real"
          using perm by simp
        have "ensemble_negative_log_likelihood labels logits' = ensemble_negative_log_likelihood labels logits"
          unfolding ensemble_nll_unfold [OF ne' rect' ok'] ensemble_nll_unfold [OF ne rect [THEN conjunct1] rect [THEN conjunct2] ok]
          by (simp only: P N reduce_logsumexp_mset [OF pm])
        moreover have "gibbs_cross_entropy labels logits' = gibbs_cross_entropy labels logits"
          unfolding gibbs_unfold [OF ne' rect' ok'] gibbs_unfold [OF ne rect [THEN conjunct1] rect [THEN conjunct2] ok]
          by (simp only: P reduce_mean_mset [OF pm])
        ultimately show ?thesis by simp
      qed
    qed
  qed
qed

lemma member_order_irrelevant_example:
  "ensemble_negative_log_likelihood [0] [[[1, 0]], [[0, 0]]]
     = ensemble_negative_log_likelihood [0] [[[0, 0]], [[1, 0]]]
   \<and> gibbs_cross_entropy [0] [[[1, 0]], [[0, 0]]]
     = gibbs_cross_entropy [0] [[[0, 0]], [[1, 0]]]"
  using exact_member_order_irrelevant [of "[[[1, 0]], [[0, 0]]]" "[[[0, 0]], [[1, 0]]]" "[0]"]
  by (simp add: add_mset_commute)

subsection \<open>Facts about the inference phase\<close>

lemma files_emit: "files (emit es w) = files w"
  by (simp add: emit_def)

lemma trace_emit: "trace (emit es w) = trace w @ es"
  by (simp add: emit_def)

lemma emit_emit: "emit es (emit es' w) = emit (es' @ es) w"
  by (simp add: emit_def)

lemma emit_Nil: "emit [] w = w"
  by (simp add: emit_def)

lemma forward_steps_eq:
  "forward_steps f m name batches ks w =
     ((if \<forall>k\<in>set ks. k < length batches
       then Inr (map (\<lambda>k. map f (map fst (batches ! k))) ks)
       else Inl StopIteration),
      emit (map (Forward m name) (takeWhile (\<lambda>k. k < length batches) ks)) w)"
proof (induction ks arbitrary: w)
  case Nil
  show ?case by (simp add: emit_Nil)
next
  case (Cons k ks)
  show ?case
  proof (cases "k < length batches")
    case True
    then show ?thesis by (simp add: Cons.IH emit_emit)
  next
    case False
    then show ?thesis by (simp add: emit_Nil)
  qed
qed

lemma predict_dataset_hit:
  "files w (cache_filename FLAGS name m) \<noteq> None
     \<Longrightarrow> predict_dataset FLAGS f m name ds steps w = (None, w)"
  by (auto simp: predict_dataset_def Let_def)

lemma predict_dataset_miss:
  assumes "files w (cache_filename FLAGS name m) = None"
  shows "predict_dataset FLAGS f m name ds steps w =
     (let fs = map (Forward m name) (takeWhile (\<lambda>k. k < length ds) [0..<nat steps]) in
      if \<forall>k\<in>set [0..<nat steps]. k < length ds then
        if nat steps = 0 then (Some InvalidArgumentError, emit fs w)
        else (None, emit (fs @ [WriteFile (cache_filename FLAGS name m)])
                      (w\<lparr>files := (files w)(cache_filename FLAGS name m \<mapsto>
                             concat (map (\<lambda>k. map f (map fst (ds ! k))) [0..<nat steps]))\<rparr>))
      else (Some StopIteration, emit fs w))"
  using assms
  by (auto simp: predict_dataset_def forward_steps_eq tf_concat_def emit_def Let_def)

lemma extends_cache_refl: "extends_cache FLAGS w w"
  by (simp add: extends_cache_def)

lemma extends_cache_trans:
  assumes "extends_cache FLAGS w w1" "extends_cache FLAGS w1 w2"
  shows "extends_cache FLAGS w w2"
proof -
  from assms(1) obtain e1 where 1: "trace w1 = trace w @ e1"
    "\<forall>fn v. files w fn = Some v \<longrightarrow> files w1 fn = Some v"
    "\<forall>m name k. Forward m name k \<in> set e1 \<longrightarrow> files w (cache_filename FLAGS name m) = None"
    "\<forall>fn. WriteFile fn \<in> set e1 \<longrightarrow> files w fn = None"
    unfolding extends_cache_def by blast
  from assms(2) obtain e2 where 2: "trace w2 = trace w1 @ e2"
    "\<forall>fn v. files w1 fn = Some v \<longrightarrow> files w2 fn = Some v"
    "\<forall>m name k. Forward m name k \<in> set e2 \<longrightarrow> files w1 (cache_filename FLAGS name m) = None"
    "\<forall>fn. WriteFile fn \<in> set e2 \<longrightarrow> files w1 fn = None"
    unfolding extends_cache_def by blast
  have none: "files w fn = None" if "files w1 fn = None" for fn
    using 1(2) that by (cases "files w fn") auto
  have "trace w2 = trace w @ (e1 @ e2)" using 1(1) 2(1) by simp
  moreover have "\<forall>fn v. files w fn = Some v \<longrightarrow> files w2 fn = Some v"
    using 1(2) 2(2) by blast
  moreover have "\<forall>m name k. Forward m name k \<in> set (e1 @ e2)
      \<longrightarrow> files w (cache_filename FLAGS name m) = None"
  proof (intro allI impI)
    fix m name k assume "Forward m name k \<in> set (e1 @ e2)"
    then consider "Forward m name k \<in> set e1" | "Forward m name k \<in> set e2" by auto
    then show "files w (cache_filename FLAGS name m) = None"
    proof cases
      case 1
      then show ?thesis using \<open>\<forall>m name k. Forward m name k \<in> set e1 \<longrightarrow> files w (cache_filename FLAGS name m) = None\<close> by blast
    next
      case 2
      then have "files w1 (cache_filename FLAGS name m) = None"
        using \<open>\<forall>m name k. Forward m name k \<in> set e2 \<longrightarrow> files w1 (cache_filename FLAGS name m) = None\<close> by blast
      then show ?thesis by (rule none)
    qed
  qed
  moreover have "\<forall>fn. WriteFile fn \<in> set (e1 @ e2) \<longrightarrow> files w fn = None"
  proof (intro allI impI)
    fix fn assume "WriteFile fn \<in> set (e1 @ e2)"
    then consider "WriteFile fn \<in> set e1" | "WriteFile fn \<in> set e2" by auto
    then show "files w fn = None"
    proof cases
      case 1
      then show ?thesis using \<open>\<forall>fn. WriteFile fn \<in> set e1 \<longrightarrow> files w fn = None\<close> by blast
    next
      case 2
      then have "files w1 fn = None"
        using \<open>\<forall>fn. WriteFile fn \<in> set e2 \<longrightarrow> files w1 fn = None\<close> by blast
      then show ?thesis by (rule none)
    qed
  qed
  ultimately show ?thesis unfolding extends_cache_def by blast
qed

lemma extends_cache_emit:
  assumes "\<forall>e\<in>set es. (\<forall>m name k. e \<noteq> Forward m name k) \<and> (\<forall>fn. e \<noteq> WriteFile fn)"
  shows "extends_cache FLAGS w (emit es w)"
  unfolding extends_cache_def
  using assms by (intro exI [of _ es]) (auto simp: emit_def)

lemma predict_dataset_extends:
  assumes "predict_dataset FLAGS f m name ds steps w = (r, w')"
  shows "extends_cache FLAGS w w'"
proof (cases "files w (cache_filename FLAGS name m)")
  case (Some a)
  then have "w' = w" using assms by (simp add: predict_dataset_hit)
  then show ?thesis by (simp add: extends_cache_refl)
next
  case None
  let ?fs = "map (Forward m name) (takeWhile (\<lambda>k. k < length ds) [0..<nat steps])"
  let ?fn = "cache_filename FLAGS name m"
  from assms None consider
      (err) "w' = emit ?fs w"
    | (ok) logits where "w' = emit (?fs @ [WriteFile ?fn]) (w\<lparr>files := (files w)(?fn \<mapsto> logits)\<rparr>)"
    by (auto simp: predict_dataset_miss Let_def split: if_splits)
  then show ?thesis
  proof cases
    case err
    show ?thesis unfolding extends_cache_def err
      using None by (intro exI [of _ ?fs]) (auto simp: emit_def)
  next
    case ok
    show ?thesis unfolding extends_cache_def ok
      using None by (intro exI [of _ "?fs @ [WriteFile ?fn]"]) (auto simp: emit_def)
  qed
qed

lemma predict_datasets_extends:
  "predict_datasets FLAGS f m ens nd n ds w = (r, w') \<Longrightarrow> extends_cache FLAGS w w'"
proof (induction ds arbitrary: n w)
  case Nil
  then show ?case by (simp add: extends_cache_refl)
next
  case (Cons d ds)
  obtain name test_dataset steps where d: "d = (name, test_dataset, steps)" by (cases d) auto
  obtain r1 w1 where p: "predict_dataset FLAGS f m name test_dataset steps w = (r1, w1)"
    by (cases "predict_dataset FLAGS f m name test_dataset steps w")
  note e1 = predict_dataset_extends [OF p]
  show ?case
  proof (cases r1)
    case (Some e)
    with Cons.prems d p have "w' = w1" by simp
    with e1 show ?thesis by simp
  next
    case None
    let ?w2 = "emit [LogPrediction ((real m * real nd + (real n + 1)) / (real ens * real nd))
                       (m + 1) ens (n + 1) nd] w1"
    from Cons.prems d p None
    have "predict_datasets FLAGS f m ens nd (n + 1) ds ?w2 = (r, w')" by (simp add: Let_def)
    then have "extends_cache FLAGS ?w2 w'" by (rule Cons.IH)
    moreover have "extends_cache FLAGS w1 ?w2" by (rule extends_cache_emit) simp
    ultimately show ?thesis using e1 by (blast intro: extends_cache_trans)
  qed
qed

lemma predict_members_extends:
  "predict_members FLAGS model ens nd m ckpts ds w = (r, w') \<Longrightarrow> extends_cache FLAGS w w'"
proof (induction ckpts arbitrary: m w)
  case Nil
  then show ?case by (simp add: extends_cache_refl)
next
  case (Cons c ckpts)
  let ?w1 = "emit [Restore c] w"
  obtain r2 w2 where p: "predict_datasets FLAGS (model c) m ens nd 0 ds ?w1 = (r2, w2)"
    by (cases "predict_datasets FLAGS (model c) m ens nd 0 ds ?w1")
  have e0: "extends_cache FLAGS w ?w1" by (rule extends_cache_emit) simp
  note e1 = predict_datasets_extends [OF p]
  show ?case
  proof (cases r2)
    case (Some e)
    with Cons.prems p have "w' = w2" by (simp add: Let_def)
    with e0 e1 show ?thesis by (blast intro: extends_cache_trans)
  next
    case None
    with Cons.prems p have "predict_members FLAGS model ens nd (m + 1) ckpts ds w2 = (r, w')"
      by (simp add: Let_def)
    then have "extends_cache FLAGS w2 w'" by (rule Cons.IH)
    with e0 e1 show ?thesis by (blast intro: extends_cache_trans)
  qed
qed

lemma predict_datasets_all_hit:
  assumes "\<forall>d\<in>set ds. files w (cache_filename FLAGS (fst d) m) \<noteq> None"
  shows "\<exists>evs. predict_datasets FLAGS f m ens nd n ds w = (None, emit evs w)
            \<and> (\<forall>e\<in>set evs. \<exists>p a b c d. e = LogPrediction p a b c d)"
  using assms
proof (induction ds arbitrary: n w)
  case Nil
  have "predict_datasets FLAGS f m ens nd n [] w = (None, emit [] w)" by (simp add: emit_Nil)
  then show ?case by (intro exI [of _ "[]"]) simp
next
  case (Cons d ds)
  obtain name test_dataset steps where d: "d = (name, test_dataset, steps)" by (cases d) auto
  let ?log = "LogPrediction ((real m * real nd + (real n + 1)) / (real ens * real nd))
                       (m + 1) ens (n + 1) nd"
  have hit: "predict_dataset FLAGS f m name test_dataset steps w = (None, w)"
    using Cons.prems d by (intro predict_dataset_hit) simp
  have "\<forall>d\<in>set ds. files (emit [?log] w) (cache_filename FLAGS (fst d) m) \<noteq> None"
    using Cons.prems by (simp add: files_emit)
  from Cons.IH [OF this, of "n + 1"] obtain evs where
    evs: "predict_datasets FLAGS f m ens nd (n + 1) ds (emit [?log] w) = (None, emit evs (emit [?log] w))"
      "\<forall>e\<in>set evs. \<exists>p a b c d. e = LogPrediction p a b c d"
    by blast
  have "predict_datasets FLAGS f m ens nd n (d # ds) w = (None, emit (?log # evs) w)"
    using evs(1) by (simp add: d hit Let_def emit_emit)
  moreover have "\<forall>e\<in>set (?log # evs). \<exists>p a b c d. e = LogPrediction p a b c d"
    using evs(2) by simp
  ultimately show ?case by blast
qed

lemma predict_members_all_hit:
  assumes "\<forall>i<length ckpts. \<forall>d\<in>set ds. files w (cache_filename FLAGS (fst d) (m + i)) \<noteq> None"
  shows "\<exists>evs. predict_members FLAGS model ens nd m ckpts ds w = (None, emit evs w)
            \<and> (\<forall>e\<in>set evs. (\<exists>c. e = Restore c) \<or> (\<exists>p a b c d. e = LogPrediction p a b c d))"
  using assms
proof (induction ckpts arbitrary: m w)
  case Nil
  have "predict_members FLAGS model ens nd m [] ds w = (None, emit [] w)" by (simp add: emit_Nil)
  then show ?case by (intro exI [of _ "[]"]) simp
next
  case (Cons c ckpts)
  let ?w1 = "emit [Restore c] w"
  have "\<forall>d\<in>set ds. files ?w1 (cache_filename FLAGS (fst d) m) \<noteq> None"
    using Cons.prems [rule_format, of 0] by (simp add: files_emit)
  from predict_datasets_all_hit [OF this, of "model c" ens nd 0] obtain e1 where
    e1: "predict_datasets FLAGS (model c) m ens nd 0 ds ?w1 = (None, emit e1 ?w1)"
      "\<forall>e\<in>set e1. \<exists>p a b c d. e = LogPrediction p a b c d"
    by blast
  have "\<forall>i<length ckpts. \<forall>d\<in>set ds.
          files (emit e1 ?w1) (cache_filename FLAGS (fst d) ((m + 1) + i)) \<noteq> None"
  proof (intro allI impI ballI)
    fix i d assume "i < length ckpts" "d \<in> set ds"
    then show "files (emit e1 ?w1) (cache_filename FLAGS (fst d) ((m + 1) + i)) \<noteq> None"
      using Cons.prems [rule_format, of "Suc i" d] by (simp add: files_emit)
  qed
  from Cons.IH [OF this] obtain e2 where
    e2: "predict_members FLAGS model ens nd (m + 1) ckpts ds (emit e1 ?w1) = (None, emit e2 (emit e1 ?w1))"
      "\<forall>e\<in>set e2. (\<exists>c. e = Restore c) \<or> (\<exists>p a b c d. e = LogPrediction p a b c d)"
    by blast
  have "predict_members FLAGS model ens nd m (c # ckpts) ds w = (None, emit (Restore c # e1 @ e2) w)"
    using e1(1) e2(1) by (simp add: Let_def emit_emit)
  moreover have "\<forall>e\<in>set (Restore c # e1 @ e2).
      (\<exists>c. e = Restore c) \<or> (\<exists>p a b c d. e = LogPrediction p a b c d)"
    using e1(2) e2(2) by auto
  ultimately show ?case by blast
qed

lemma predict_dataset_trace:
  assumes "predict_dataset FLAGS f m name ds steps w = (r, w')"
  shows "\<exists>evs. trace w' = trace w @ evs
           \<and> (\<forall>e\<in>set evs. (\<exists>k. e = Forward m name k) \<or> (\<exists>fn. e = WriteFile fn))"
proof (cases "files w (cache_filename FLAGS name m)")
  case (Some a)
  then have "w' = w" using assms by (simp add: predict_dataset_hit)
  then show ?thesis by simp
next
  case None
  let ?fs = "map (Forward m name) (takeWhile (\<lambda>k. k < length ds) [0..<nat steps])"
  let ?fn = "cache_filename FLAGS name m"
  from assms None consider
      (err) "w' = emit ?fs w"
    | (ok) logits where "w' = emit (?fs @ [WriteFile ?fn]) (w\<lparr>files := (files w)(?fn \<mapsto> logits)\<rparr>)"
    by (auto simp: predict_dataset_miss Let_def split: if_splits)
  then show ?thesis
  proof cases
    case err
    show ?thesis unfolding err
      by (intro exI [of _ ?fs]) (auto simp: emit_def)
  next
    case ok
    show ?thesis unfolding ok
      by (intro exI [of _ "?fs @ [WriteFile ?fn]"]) (auto simp: emit_def)
  qed
qed

lemma predict_datasets_logs:
  assumes "predict_datasets FLAGS f m ens nd n ds w = (r, w')"
  shows "\<exists>evs. trace w' = trace w @ evs
     \<and> (\<forall>p a b c d. LogPrediction p a b c d \<in> set evs \<longrightarrow>
           a = m + 1 \<and> b = ens \<and> d = nd
           \<and> (\<exists>j. n \<le> j \<and> j < n + length ds \<and> c = j + 1
                \<and> p = (real m * real nd + (real j + 1)) / (real ens * real nd)))
     \<and> (r = None \<longrightarrow> (\<forall>j. n \<le> j \<and> j < n + length ds \<longrightarrow>
           LogPrediction ((real m * real nd + (real j + 1)) / (real ens * real nd))
             (m + 1) ens (j + 1) nd \<in> set evs))"
  using assms
proof (induction ds arbitrary: n w)
  case Nil
  then have "w' = w" by simp
  then show ?case by (intro exI [of _ "[]"]) simp
next
  case (Cons d ds)
  obtain name test_dataset steps where d: "d = (name, test_dataset, steps)" by (cases d) auto
  obtain r1 w1 where p: "predict_dataset FLAGS f m name test_dataset steps w = (r1, w1)"
    by (cases "predict_dataset FLAGS f m name test_dataset steps w")
  from predict_dataset_trace [OF p] obtain e1 where
    e1: "trace w1 = trace w @ e1"
      "\<forall>e\<in>set e1. (\<exists>k. e = Forward m name k) \<or> (\<exists>fn. e = WriteFile fn)"
    by blast
  have nolog: "LogPrediction p a b c d' \<notin> set e1" for p a b c d'
    using e1(2) by auto
  show ?case
  proof (cases r1)
    case (Some e)
    with Cons.prems d p have "w' = w1" "r = Some e" by simp_all
    with e1(1) nolog show ?thesis by (intro exI [of _ e1]) simp
  next
    case None
    let ?log = "\<lambda>j. LogPrediction ((real m * real nd + (real j + 1)) / (real ens * real nd))
                       (m + 1) ens (j + 1) nd"
    let ?w2 = "emit [?log n] w1"
    from Cons.prems d p None
    have "predict_datasets FLAGS f m ens nd (n + 1) ds ?w2 = (r, w')" by (simp add: Let_def)
    from Cons.IH [OF this] obtain e2 where
      e2: "trace w' = trace ?w2 @ e2"
        "\<forall>p a b c d. LogPrediction p a b c d \<in> set e2 \<longrightarrow>
           a = m + 1 \<and> b = ens \<and> d = nd
           \<and> (\<exists>j. n + 1 \<le> j \<and> j < n + 1 + length ds \<and> c = j + 1
                \<and> p = (real m * real nd + (real j + 1)) / (real ens * real nd))"
        "r = None \<longrightarrow> (\<forall>j. n + 1 \<le> j \<and> j < n + 1 + length ds \<longrightarrow> ?log j \<in> set e2)"
      by blast
    let ?evs = "e1 @ [?log n] @ e2"
    have t: "trace w' = trace w @ ?evs"
      using e1(1) e2(1) by (simp add: trace_emit)
    have a: "\<forall>p a b c d'. LogPrediction p a b c d' \<in> set ?evs \<longrightarrow>
           a = m + 1 \<and> b = ens \<and> d' = nd
           \<and> (\<exists>j. n \<le> j \<and> j < n + length (d # ds) \<and> c = j + 1
                \<and> p = (real m * real nd + (real j + 1)) / (real ens * real nd))"
    proof (intro allI impI)
      fix p a b c d'
      assume "LogPrediction p a b c d' \<in> set ?evs"
      then consider "LogPrediction p a b c d' = ?log n" | "LogPrediction p a b c d' \<in> set e2"
        using nolog by auto
      then show "a = m + 1 \<and> b = ens \<and> d' = nd
           \<and> (\<exists>j. n \<le> j \<and> j < n + length (d # ds) \<and> c = j + 1
                \<and> p = (real m * real nd + (real j + 1)) / (real ens * real nd))"
      proof cases
        case 1
        then show ?thesis by (intro conjI exI [of _ n]) simp_all
      next
        case 2
        with e2(2) obtain j where "a = m + 1" "b = ens" "d' = nd" "n + 1 \<le> j" "j < n + 1 + length ds"
          "c = j + 1" "p = (real m * real nd + (real j + 1)) / (real ens * real nd)"
          by blast
        then show ?thesis by (intro conjI exI [of _ j]) simp_all
      qed
    qed
    have b: "r = None \<longrightarrow> (\<forall>j. n \<le> j \<and> j < n + length (d # ds) \<longrightarrow> ?log j \<in> set ?evs)"
    proof (intro impI allI)
      fix j assume r: "r = None" and j: "n \<le> j \<and> j < n + length (d # ds)"
      show "?log j \<in> set ?evs"
      proof (cases "j = n")
        case True
        then show ?thesis by simp
      next
        case False
        with j have "n + 1 \<le> j \<and> j < n + 1 + length ds" by simp
        with e2(3) r have "?log j \<in> set e2" by blast
        then show ?thesis by simp
      qed
    qed
    from t a b show ?thesis by blast
  qed
qed

lemma predict_members_logs:
  assumes "predict_members FLAGS model ens nd m0 ckpts ds w = (r, w')"
  shows "\<exists>evs. trace w' = trace w @ evs
     \<and> (\<forall>p a b c d. LogPrediction p a b c d \<in> set evs \<longrightarrow>
           b = ens \<and> d = nd
           \<and> (\<exists>i j. m0 \<le> i \<and> i < m0 + length ckpts \<and> j < length ds \<and> a = i + 1 \<and> c = j + 1
                \<and> p = (real i * real nd + (real j + 1)) / (real ens * real nd)))
     \<and> (r = None \<longrightarrow> (\<forall>i j. m0 \<le> i \<and> i < m0 + length ckpts \<and> j < length ds \<longrightarrow>
           LogPrediction ((real i * real nd + (real j + 1)) / (real ens * real nd))
             (i + 1) ens (j + 1) nd \<in> set evs))"
  using assms
proof (induction ckpts arbitrary: m0 w)
  case Nil
  then have "w' = w" by simp
  then show ?case by (intro exI [of _ "[]"]) simp
next
  case (Cons ck ckpts)
  let ?log = "\<lambda>i j. LogPrediction ((real i * real nd + (real j + 1)) / (real ens * real nd))
                       (i + 1) ens (j + 1) nd"
  let ?w1 = "emit [Restore ck] w"
  obtain r2 w2 where p: "predict_datasets FLAGS (model ck) m0 ens nd 0 ds ?w1 = (r2, w2)"
    by (cases "predict_datasets FLAGS (model ck) m0 ens nd 0 ds ?w1")
  from predict_datasets_logs [OF p] obtain e1 where
    e1: "trace w2 = trace ?w1 @ e1"
      "\<forall>p a b c d. LogPrediction p a b c d \<in> set e1 \<longrightarrow>
           a = m0 + 1 \<and> b = ens \<and> d = nd
           \<and> (\<exists>j. 0 \<le> j \<and> j < 0 + length ds \<and> c = j + 1
                \<and> p = (real m0 * real nd + (real j + 1)) / (real ens * real nd))"
      "r2 = None \<longrightarrow> (\<forall>j. 0 \<le> j \<and> j < 0 + length ds \<longrightarrow> ?log m0 j \<in> set e1)"
    by blast
  have first: "b = ens \<and> d = nd
           \<and> (\<exists>i j. m0 \<le> i \<and> i < m0 + length (ck # ckpts) \<and> j < length ds \<and> a = i + 1 \<and> c = j + 1
                \<and> p = (real i * real nd + (real j + 1)) / (real ens * real nd))"
    if "LogPrediction p a b c d \<in> set e1" for p a b c d
  proof -
    from e1(2) that obtain j where "a = m0 + 1" "b = ens" "d = nd" "j < 0 + length ds" "c = j + 1"
      "p = (real m0 * real nd + (real j + 1)) / (real ens * real nd)"
      by blast
    then show ?thesis by (intro conjI exI [of _ m0] exI [of _ j]) simp_all
  qed
  show ?case
  proof (cases r2)
    case (Some e)
    with Cons.prems p have "w' = w2" "r = Some e" by (simp_all add: Let_def)
    moreover have "trace w2 = trace w @ (Restore ck # e1)"
      using e1(1) by (simp add: trace_emit)
    moreover have "\<forall>p a b c d. LogPrediction p a b c d \<in> set (Restore ck # e1) \<longrightarrow>
           b = ens \<and> d = nd
           \<and> (\<exists>i j. m0 \<le> i \<and> i < m0 + length (ck # ckpts) \<and> j < length ds \<and> a = i + 1 \<and> c = j + 1
                \<and> p = (real i * real nd + (real j + 1)) / (real ens * real nd))"
    proof (intro allI impI)
      fix p a b c d assume "LogPrediction p a b c d \<in> set (Restore ck # e1)"
      then have "LogPrediction p a b c d \<in> set e1" by simp
      then show "b = ens \<and> d = nd
           \<and> (\<exists>i j. m0 \<le> i \<and> i < m0 + length (ck # ckpts) \<and> j < length ds \<and> a = i + 1 \<and> c = j + 1
                \<and> p = (real i * real nd + (real j + 1)) / (real ens * real nd))"
        by (rule first)
    qed
    ultimately show ?thesis
      by (intro exI [of _ "Restore ck # e1"]) (simp only: simp_thms option.distinct)
  next
    case None
    with Cons.prems p have "predict_members FLAGS model ens nd (m0 + 1) ckpts ds w2 = (r, w')"
      by (simp add: Let_def)
    from Cons.IH [OF this] obtain e2 where
      e2: "trace w' = trace w2 @ e2"
        "\<forall>p a b c d. LogPrediction p a b c d \<in> set e2 \<longrightarrow>
           b = ens \<and> d = nd
           \<and> (\<exists>i j. m0 + 1 \<le> i \<and> i < m0 + 1 + length ckpts \<and> j < length ds \<and> a = i + 1 \<and> c = j + 1
                \<and> p = (real i * real nd + (real j + 1)) / (real ens * real nd))"
        "r = None \<longrightarrow> (\<forall>i j. m0 + 1 \<le> i \<and> i < m0 + 1 + length ckpts \<and> j < length ds \<longrightarrow>
           ?log i j \<in> set e2)"
      by blast
    let ?evs = "Restore ck # e1 @ e2"
    have t: "trace w' = trace w @ ?evs"
      using e1(1) e2(1) by (simp add: trace_emit)
    have a: "\<forall>p a b c d. LogPrediction p a b c d \<in> set ?evs \<longrightarrow>
           b = ens \<and> d = nd
           \<and> (\<exists>i j. m0 \<le> i \<and> i < m0 + length (ck # ckpts) \<and> j < length ds \<and> a = i + 1 \<and> c = j + 1
                \<and> p = (real i * real nd + (real j + 1)) / (real ens * real nd))"
    proof (intro allI impI)
      fix p a b c d
      assume "LogPrediction p a b c d \<in> set ?evs"
      then consider "LogPrediction p a b c d \<in> set e1" | "LogPrediction p a b c d \<in> set e2"
        by auto
      then show "b = ens \<and> d = nd
           \<and> (\<exists>i j. m0 \<le> i \<and> i < m0 + length (ck # ckpts) \<and> j < length ds \<and> a = i + 1 \<and> c = j + 1
                \<and> p = (real i * real nd + (real j + 1)) / (real ens * real nd))"
      proof cases
        case 1
        then show ?thesis by (rule first)
      next
        case 2
        with e2(2) obtain i j where "b = ens" "d = nd" "m0 + 1 \<le> i" "i < m0 + 1 + length ckpts"
          "j < length ds" "a = i + 1" "c = j + 1"
          "p = (real i * real nd + (real j + 1)) / (real ens * real nd)"
          by blast
        then show ?thesis by (intro conjI exI [of _ i] exI [of _ j]) simp_all
      qed
    qed
    have b: "r = None \<longrightarrow> (\<forall>i j. m0 \<le> i \<and> i < m0 + length (ck # ckpts) \<and> j < length ds \<longrightarrow>
           ?log i j \<in> set ?evs)"
    proof (intro impI allI)
      fix i j assume r: "r = None" and ij: "m0 \<le> i \<and> i < m0 + length (ck # ckpts) \<and> j < length ds"
      show "?log i j \<in> set ?evs"
      proof (cases "i = m0")
        case True
        with e1(3) None ij have "?log i j \<in> set e1" by simp
        then show ?thesis by simp
      next
        case False
        with ij have "m0 + 1 \<le> i \<and> i < m0 + 1 + length ckpts \<and> j < length ds" by simp
        with e2(3) r have "?log i j \<in> set e2" by blast
        then show ?thesis by simp
      qed
    qed
    from t a b show ?thesis by blast
  qed
qed

lemma build_test_datasets_two:
  "batch_size \<noteq> 0 \<Longrightarrow>
   build_test_datasets FLAGS batch_size [(a, xs), (b, ys)] w =
     (Inr [(a, dataset_batches (per_core_batch_size FLAGS) xs, int (length xs) div batch_size),
           (b, dataset_batches (per_core_batch_size FLAGS) ys, int (length ys) div batch_size)],
      emit [BuildDataset a, BuildDataset b] w)"
  by (simp add: Let_def emit_emit)

subsection \<open>Facts about batches and the evaluation phase\<close>



















subsection \<open>Properties of the script\<close>

text \<open>
  Claim C6. In any run of the inference phase (from any member index, over any
  checkpoints and datasets, ending normally or in an exception): for every dataset and
  member whose cache file exists at the start, the file keeps its contents, the phase
  makes no forward pass for that member and dataset, and it does not write the file.
  When the cache file of every member and dataset of the run exists at the start, the
  phase ends normally, leaves every file as it was, and makes no forward pass and no
  write at all.
\<close>

theorem cache_hit_skips_inference:
  assumes run: "predict_members FLAGS model ens nd m0 ckpts datasets w = (r, w')"
  shows "\<exists>evs. trace w' = trace w @ evs
       \<and> (\<forall>name m. files w (cache_filename FLAGS name m) \<noteq> None \<longrightarrow>
            files w' (cache_filename FLAGS name m) = files w (cache_filename FLAGS name m)
            \<and> (\<forall>k. Forward m name k \<notin> set evs)
            \<and> WriteFile (cache_filename FLAGS name m) \<notin> set evs)
       \<and> ((\<forall>i<length ckpts. \<forall>d\<in>set datasets.
              files w (cache_filename FLAGS (fst d) (m0 + i)) \<noteq> None) \<longrightarrow>
            r = None \<and> files w' = files w
            \<and> (\<forall>e\<in>set evs. (\<forall>m name k. e \<noteq> Forward m name k) \<and> (\<forall>fn. e \<noteq> WriteFile fn)))"
proof -
  from predict_members_extends [OF run] obtain evs where
    evs: "trace w' = trace w @ evs"
      "\<forall>fn v. files w fn = Some v \<longrightarrow> files w' fn = Some v"
      "\<forall>m name k. Forward m name k \<in> set evs \<longrightarrow> files w (cache_filename FLAGS name m) = None"
      "\<forall>fn. WriteFile fn \<in> set evs \<longrightarrow> files w fn = None"
    unfolding extends_cache_def by blast
  have one: "\<forall>name m. files w (cache_filename FLAGS name m) \<noteq> None \<longrightarrow>
            files w' (cache_filename FLAGS name m) = files w (cache_filename FLAGS name m)
            \<and> (\<forall>k. Forward m name k \<notin> set evs)
            \<and> WriteFile (cache_filename FLAGS name m) \<notin> set evs"
    using evs(2,3,4) by (metis not_None_eq)
  have two: "r = None \<and> files w' = files w
            \<and> (\<forall>e\<in>set evs. (\<forall>m name k. e \<noteq> Forward m name k) \<and> (\<forall>fn. e \<noteq> WriteFile fn))"
    if full: "\<forall>i<length ckpts. \<forall>d\<in>set datasets.
              files w (cache_filename FLAGS (fst d) (m0 + i)) \<noteq> None"
  proof -
    from predict_members_all_hit [OF full, of model ens nd] obtain es where
      es: "predict_members FLAGS model ens nd m0 ckpts datasets w = (None, emit es w)"
        "\<forall>e\<in>set es. (\<exists>c. e = Restore c) \<or> (\<exists>p a b c d. e = LogPrediction p a b c d)"
      by blast
    from es(1) run have r: "r = None" and w': "w' = emit es w" by simp_all
    have "evs = es" using evs(1) by (simp add: w' trace_emit)
    with es(2) have "\<forall>e\<in>set evs. (\<forall>m name k. e \<noteq> Forward m name k) \<and> (\<forall>fn. e \<noteq> WriteFile fn)"
      by auto
    with r w' show ?thesis by (simp add: files_emit)
  qed
  from evs(1) one two show ?thesis by blast
qed

theorem cache_hit_skips_inference_witness:
  "\<exists>evs. trace (snd (predict_members
              \<lparr>use_gpu = True, num_cores = 1, per_core_batch_size = 1, model_family = ''bert'',
                output_dir = ''out'', checkpoint_dir = ''ckpt'', seed = 0\<rparr>
              (\<lambda>c x. [0]) 1 1 0 [''ckpt/a''] [(''clean'', [[(0::nat, 0)]], 1)]
              \<lparr>files = [''out/clean_0.npy'' \<mapsto> [[1]]], trace = []\<rparr>)) = [] @ evs
        \<and> (\<forall>k. Forward 0 ''clean'' k \<notin> set evs)
        \<and> WriteFile ''out/clean_0.npy'' \<notin> set evs
        \<and> files (snd (predict_members
              \<lparr>use_gpu = True, num_cores = 1, per_core_batch_size = 1, model_family = ''bert'',
                output_dir = ''out'', checkpoint_dir = ''ckpt'', seed = 0\<rparr>
              (\<lambda>c x. [0]) 1 1 0 [''ckpt/a''] [(''clean'', [[(0::nat, 0)]], 1)]
              \<lparr>files = [''out/clean_0.npy'' \<mapsto> [[1]]], trace = []\<rparr>)) ''out/clean_0.npy'' = Some [[1]]"
  using cache_hit_skips_inference [of
      "\<lparr>use_gpu = True, num_cores = 1, per_core_batch_size = 1, model_family = ''bert'',
        output_dir = ''out'', checkpoint_dir = ''ckpt'', seed = 0\<rparr>"
      "\<lambda>c x. [0]" 1 1 0 "[''ckpt/a'']" "[(''clean'', [[(0::nat, 0)]], 1)]"
      "\<lparr>files = [''out/clean_0.npy'' \<mapsto> [[1]]], trace = []\<rparr>"
      "fst (predict_members
              \<lparr>use_gpu = True, num_cores = 1, per_core_batch_size = 1, model_family = ''bert'',
                output_dir = ''out'', checkpoint_dir = ''ckpt'', seed = 0\<rparr>
              (\<lambda>c x. [0]) 1 1 0 [''ckpt/a''] [(''clean'', [[(0::nat, 0)]], 1)]
              \<lparr>files = [''out/clean_0.npy'' \<mapsto> [[1]]], trace = []\<rparr>)"
      "snd (predict_members
              \<lparr>use_gpu = True, num_cores = 1, per_core_batch_size = 1, model_family = ''bert'',
                output_dir = ''out'', checkpoint_dir = ''ckpt'', seed = 0\<rparr>
              (\<lambda>c x. [0]) 1 1 0 [''ckpt/a''] [(''clean'', [[(0::nat, 0)]], 1)]
              \<lparr>files = [''out/clean_0.npy'' \<mapsto> [[1]]], trace = []\<rparr>)"]
  by (simp add: cache_filename_def path_join_def predict_dataset_def emit_def)

text \<open>
  Claim C7, as amended. The message logged after member \<open>m\<close> (0-based) has handled
  dataset \<open>n\<close> (0-based) carries the completion
  \<open>(m * num_datasets + (n + 1)) / (ensemble_size * num_datasets)\<close>, together with the
  1-based indices \<open>m + 1\<close> and \<open>n + 1\<close>: every progress message of the inference phase
  has this form, and a phase that ends normally has logged it for every member and
  dataset. The claim as stated has \<open>n\<close> where the code has \<open>n + 1\<close>; with one member and
  two datasets the first message reads one half, where the claim gives zero.
\<close>

theorem completion_percent_logged:
  assumes run: "predict_members FLAGS model ensemble_size num_datasets 0 ckpts datasets w = (r, w')"
  shows "\<exists>evs. trace w' = trace w @ evs
     \<and> (\<forall>p a b c d. LogPrediction p a b c d \<in> set evs \<longrightarrow>
           (\<exists>m n. m < length ckpts \<and> n < length datasets
                \<and> a = m + 1 \<and> b = ensemble_size \<and> c = n + 1 \<and> d = num_datasets
                \<and> p = (real m * real num_datasets + (real n + 1))
                        / (real ensemble_size * real num_datasets)))
     \<and> (r = None \<longrightarrow> (\<forall>m n. m < length ckpts \<and> n < length datasets \<longrightarrow>
           LogPrediction ((real m * real num_datasets + (real n + 1))
                            / (real ensemble_size * real num_datasets))
             (m + 1) ensemble_size (n + 1) num_datasets \<in> set evs))"
proof -
  from predict_members_logs [OF run] obtain evs where
    evs: "trace w' = trace w @ evs"
      "\<forall>p a b c d. LogPrediction p a b c d \<in> set evs \<longrightarrow>
           b = ensemble_size \<and> d = num_datasets
           \<and> (\<exists>i j. 0 \<le> i \<and> i < 0 + length ckpts \<and> j < length datasets \<and> a = i + 1 \<and> c = j + 1
                \<and> p = (real i * real num_datasets + (real j + 1))
                        / (real ensemble_size * real num_datasets))"
      "r = None \<longrightarrow> (\<forall>i j. 0 \<le> i \<and> i < 0 + length ckpts \<and> j < length datasets \<longrightarrow>
           LogPrediction ((real i * real num_datasets + (real j + 1))
                            / (real ensemble_size * real num_datasets))
             (i + 1) ensemble_size (j + 1) num_datasets \<in> set evs)"
    by blast
  have a: "\<forall>p a b c d. LogPrediction p a b c d \<in> set evs \<longrightarrow>
           (\<exists>m n. m < length ckpts \<and> n < length datasets
                \<and> a = m + 1 \<and> b = ensemble_size \<and> c = n + 1 \<and> d = num_datasets
                \<and> p = (real m * real num_datasets + (real n + 1))
                        / (real ensemble_size * real num_datasets))"
  proof (intro allI impI)
    fix p a b c d assume "LogPrediction p a b c d \<in> set evs"
    with evs(2) obtain i j where "b = ensemble_size" "d = num_datasets" "i < 0 + length ckpts"
      "j < length datasets" "a = i + 1" "c = j + 1"
      "p = (real i * real num_datasets + (real j + 1)) / (real ensemble_size * real num_datasets)"
      by blast
    then show "\<exists>m n. m < length ckpts \<and> n < length datasets
                \<and> a = m + 1 \<and> b = ensemble_size \<and> c = n + 1 \<and> d = num_datasets
                \<and> p = (real m * real num_datasets + (real n + 1))
                        / (real ensemble_size * real num_datasets)"
      by (intro exI [of _ i] exI [of _ j]) simp
  qed
  have b: "r = None \<longrightarrow> (\<forall>m n. m < length ckpts \<and> n < length datasets \<longrightarrow>
           LogPrediction ((real m * real num_datasets + (real n + 1))
                            / (real ensemble_size * real num_datasets))
             (m + 1) ensemble_size (n + 1) num_datasets \<in> set evs)"
    using evs(3) by simp
  from evs(1) a b show ?thesis by blast
qed

theorem completion_percent_logged_witness:
  "LogPrediction ((real 0 * real 2 + (real 0 + 1)) / (real 1 * real 2)) (0 + 1) 1 (0 + 1) 2
     \<in> set (trace (snd (predict_members
              \<lparr>use_gpu = True, num_cores = 1, per_core_batch_size = 1, model_family = ''bert'',
                output_dir = ''out'', checkpoint_dir = ''ckpt'', seed = 0\<rparr>
              (\<lambda>c x. [0]) 1 2 0 [''ckpt/a'']
              [(''clean'', [[(0::nat, 0)]], 1), (''ood'', [[(0::nat, 0)]], 1)]
              \<lparr>files = [''out/clean_0.npy'' \<mapsto> [[1]], ''out/ood_0.npy'' \<mapsto> [[1]]],
                trace = []\<rparr>)))"
  using completion_percent_logged [of
      "\<lparr>use_gpu = True, num_cores = 1, per_core_batch_size = 1, model_family = ''bert'',
        output_dir = ''out'', checkpoint_dir = ''ckpt'', seed = 0\<rparr>"
      "\<lambda>c x. [0]" 1 2 "[''ckpt/a'']"
      "[(''clean'', [[(0::nat, 0)]], 1), (''ood'', [[(0::nat, 0)]], 1)]"
      "\<lparr>files = [''out/clean_0.npy'' \<mapsto> [[1]], ''out/ood_0.npy'' \<mapsto> [[1]]], trace = []\<rparr>"
      "fst (predict_members
              \<lparr>use_gpu = True, num_cores = 1, per_core_batch_size = 1, model_family = ''bert'',
                output_dir = ''out'', checkpoint_dir = ''ckpt'', seed = 0\<rparr>
              (\<lambda>c x. [0]) 1 2 0 [''ckpt/a'']
              [(''clean'', [[(0::nat, 0)]], 1), (''ood'', [[(0::nat, 0)]], 1)]
              \<lparr>files = [''out/clean_0.npy'' \<mapsto> [[1]], ''out/ood_0.npy'' \<mapsto> [[1]]],
                trace = []\<rparr>)"
      "snd (predict_members
              \<lparr>use_gpu = True, num_cores = 1, per_core_batch_size = 1, model_family = ''bert'',
                output_dir = ''out'', checkpoint_dir = ''ckpt'', seed = 0\<rparr>
              (\<lambda>c x. [0]) 1 2 0 [''ckpt/a'']
              [(''clean'', [[(0::nat, 0)]], 1), (''ood'', [[(0::nat, 0)]], 1)]
              \<lparr>files = [''out/clean_0.npy'' \<mapsto> [[1]], ''out/ood_0.npy'' \<mapsto> [[1]]],
                trace = []\<rparr>)"]
  by (simp add: cache_filename_def path_join_def predict_dataset_def emit_def)

theorem completion_percent_counterexample:
  "trace (snd (predict_members
              \<lparr>use_gpu = True, num_cores = 1, per_core_batch_size = 1, model_family = ''bert'',
                output_dir = ''out'', checkpoint_dir = ''ckpt'', seed = 0\<rparr>
              (\<lambda>c x. [0]) 1 2 0 [''ckpt/a'']
              [(''clean'', [[(0::nat, 0)]], 1), (''ood'', [[(0::nat, 0)]], 1)]
              \<lparr>files = [''out/clean_0.npy'' \<mapsto> [[1]], ''out/ood_0.npy'' \<mapsto> [[1]]],
                trace = []\<rparr>))
     = [Restore ''ckpt/a'', LogPrediction (1 / 2) 1 1 1 2, LogPrediction 1 1 1 2 2]
   \<and> (1 / 2 :: real) \<noteq> (real 0 * real 2 + real 0) / (real 1 * real 2)"
  by (simp add: cache_filename_def path_join_def predict_dataset_def emit_def)

text \<open>
  Claim C8, as amended. An unsupported accelerator configuration (\<open>use_gpu\<close> false, or
  \<open>num_cores > 1\<close>) raises \<^verbatim>\<open>ValueError\<close> at once: the world is untouched. An unknown
  model family (in lower case neither \<open>textcnn\<close> nor \<open>bert\<close>), with the accelerator
  accepted and a non-zero batch size, raises \<^verbatim>\<open>ValueError\<close> after the seed has been set
  and the output directory, the two dataset builders and the two test datasets have
  been made, and before anything else: no model is built, no checkpoint restored, no
  forward pass made, no file written or read and no metric updated. The claim as stated
  has this error, too, raised before the datasets are constructed.
\<close>

theorem configuration_errors:
  "(\<not> use_gpu FLAGS \<or> 1 < num_cores FLAGS \<longrightarrow>
      (\<exists>msg. main FLAGS env w = (Some (ValueError msg), w)))
 \<and> (use_gpu FLAGS \<and> num_cores FLAGS \<le> 1
      \<and> per_core_batch_size FLAGS * num_cores FLAGS \<noteq> 0
      \<and> lower (model_family FLAGS) \<noteq> ''textcnn'' \<and> lower (model_family FLAGS) \<noteq> ''bert'' \<longrightarrow>
      (\<exists>msg. main FLAGS env w =
         (Some (ValueError msg),
          emit [SetSeed (seed FLAGS), MakeDirs (output_dir FLAGS),
                BuildDatasetBuilder ''ind'', BuildDatasetBuilder ''ood'',
                BuildDataset ''clean'', BuildDataset ''ood''] w)))"
proof (intro conjI impI)
  assume "\<not> use_gpu FLAGS \<or> 1 < num_cores FLAGS"
  then show "\<exists>msg. main FLAGS env w = (Some (ValueError msg), w)"
    by (auto simp: main_def)
next
  assume a: "use_gpu FLAGS \<and> num_cores FLAGS \<le> 1
      \<and> per_core_batch_size FLAGS * num_cores FLAGS \<noteq> 0
      \<and> lower (model_family FLAGS) \<noteq> ''textcnn'' \<and> lower (model_family FLAGS) \<noteq> ''bert''"
  then have b: "build_model FLAGS w' =
      (Some (ValueError (''model_family ('' @ model_family FLAGS
                                @ '') can only be TextCNN or BERT.'')), w')" for w'
    by (simp add: build_model_def)
  have c: "\<not> 1 < num_cores FLAGS" using a by simp
  show "\<exists>msg. main FLAGS env w =
         (Some (ValueError msg),
          emit [SetSeed (seed FLAGS), MakeDirs (output_dir FLAGS),
                BuildDatasetBuilder ''ind'', BuildDatasetBuilder ''ood'',
                BuildDataset ''clean'', BuildDataset ''ood''] w)"
    unfolding main_def
    using a c by (simp only: build_test_datasets_two b Let_def emit_emit) (simp add: emit_emit)
qed

theorem configuration_errors_witness:
  "(\<exists>msg. main \<lparr>use_gpu = False, num_cores = 1, per_core_batch_size = 2,
                 model_family = ''resnet'', output_dir = ''out'', checkpoint_dir = ''ckpt'',
                 seed = 0\<rparr>
               \<lparr>ind_examples = [(0::nat, 0)], ood_examples = [], index_files = [],
                 net = (\<lambda>c x. [])\<rparr>
               \<lparr>files = Map.empty, trace = []\<rparr>
           = (Some (ValueError msg), \<lparr>files = Map.empty, trace = []\<rparr>))
 \<and> (\<exists>msg. main \<lparr>use_gpu = True, num_cores = 1, per_core_batch_size = 2,
                 model_family = ''resnet'', output_dir = ''out'', checkpoint_dir = ''ckpt'',
                 seed = 0\<rparr>
               \<lparr>ind_examples = [(0::nat, 0)], ood_examples = [], index_files = [],
                 net = (\<lambda>c x. [])\<rparr>
               \<lparr>files = Map.empty, trace = []\<rparr>
           = (Some (ValueError msg),
              \<lparr>files = Map.empty,
                trace = [SetSeed 0, MakeDirs ''out'', BuildDatasetBuilder ''ind'',
                         BuildDatasetBuilder ''ood'', BuildDataset ''clean'',
                         BuildDataset ''ood'']\<rparr>))"
  using configuration_errors [of
      "\<lparr>use_gpu = False, num_cores = 1, per_core_batch_size = 2,
        model_family = ''resnet'', output_dir = ''out'', checkpoint_dir = ''ckpt'', seed = 0\<rparr>"
      "\<lparr>ind_examples = [(0::nat, 0)], ood_examples = [], index_files = [],
        net = (\<lambda>c x. [])\<rparr>"
      "\<lparr>files = Map.empty, trace = []\<rparr>"]
    configuration_errors [of
      "\<lparr>use_gpu = True, num_cores = 1, per_core_batch_size = 2,
        model_family = ''resnet'', output_dir = ''out'', checkpoint_dir = ''ckpt'', seed = 0\<rparr>"
      "\<lparr>ind_examples = [(0::nat, 0)], ood_examples = [], index_files = [],
        net = (\<lambda>c x. [])\<rparr>"
      "\<lparr>files = Map.empty, trace = []\<rparr>"]
  by (simp add: lower_def lower_char_def emit_def)

theorem configuration_errors_counterexample:
  "fst (main \<lparr>use_gpu = True, num_cores = 1, per_core_batch_size = 2,
              model_family = ''resnet'', output_dir = ''out'', checkpoint_dir = ''ckpt'',
              seed = 0\<rparr>
            \<lparr>ind_examples = [(0::nat, 0)], ood_examples = [], index_files = [],
              net = (\<lambda>c x. [])\<rparr>
            \<lparr>files = Map.empty, trace = []\<rparr>)
     = Some (ValueError ''model_family (resnet) can only be TextCNN or BERT.'')
 \<and> trace (snd (main \<lparr>use_gpu = True, num_cores = 1, per_core_batch_size = 2,
              model_family = ''resnet'', output_dir = ''out'', checkpoint_dir = ''ckpt'',
              seed = 0\<rparr>
            \<lparr>ind_examples = [(0::nat, 0)], ood_examples = [], index_files = [],
              net = (\<lambda>c x. [])\<rparr>
            \<lparr>files = Map.empty, trace = []\<rparr>))
     = [SetSeed 0, MakeDirs ''out'', BuildDatasetBuilder ''ind'', BuildDatasetBuilder ''ood'',
        BuildDataset ''clean'', BuildDataset ''ood'']"
  by (simp add: main_def build_model_def lower_def lower_char_def emit_def Let_def)




end
